theory Spec2Isabelle
  imports Complex_Main
begin

section \<open>Live metric feed (SupportPortal.tsx, MetricsAndLegend)\<close>

text \<open>
  JavaScript numbers are modelled as reals. A division whose denominator is zero yields
  NaN or an infinity in JavaScript; \<open>js_div\<close> returns \<open>None\<close> there, so that
  "the result is a finite number" is the statement \<open>js_div a b = Some v\<close>.
\<close>

definition js_div :: "real \<Rightarrow> real \<Rightarrow> real option" where
  "js_div a b = (if b = 0 then None else Some (a / b))"

text \<open>The seven target values computed in the component body from the \<open>tick\<close> state.\<close>

record targets =
  tOil :: real
  tGas :: real
  tWaterCut :: real
  tTank :: real
  tSepP :: real
  tFlare :: real
  tRecovered :: real

definition targets_of :: "nat \<Rightarrow> targets" where
  "targets_of tick =
     (let tFlare' = 12 + max 0 (sin (real tick * 1.1)) * 6 in
      \<lparr> tOil = 480 + sin (real tick * 0.9) * 35,
        tGas = 1.8 + sin (real tick * 0.7) * 0.12,
        tWaterCut = 0.22 + sin (real tick * 0.5) * 0.03,
        tTank = 62 + sin (real tick * 0.4 + 1.3) * 8,
        tSepP = 145 + sin (real tick * 0.8) * 6,
        tFlare = tFlare',
        tRecovered = 5.5 + sin (real tick * 0.95 + 1.4) * 2 + max 0 (10 - tFlare' * 0.4) * 0.15 \<rparr>)"

text \<open>
  The smoothed (displayed) React states, and the page-global time stamp
  \<open>window.__lastFlareDispatch\<close> (\<open>None\<close> is \<open>undefined\<close>).
\<close>

record metrics =
  oilRate :: real
  gasRate :: real
  waterCut :: real
  tankLevel :: real
  sepPressure :: real
  flareRate :: real
  recovRate :: real

record portal = metrics +
  lastFlareDispatch :: "real option"

text \<open>\<open>useState(tOil)\<close> and its siblings: the first render runs with \<open>tick = 0\<close>.\<close>

definition initial_portal :: "real option \<Rightarrow> portal" where
  "initial_portal l0 =
     (let tg = targets_of 0 in
      \<lparr> oilRate = tOil tg, gasRate = tGas tg, waterCut = tWaterCut tg, tankLevel = tTank tg,
        sepPressure = tSepP tg, flareRate = tFlare tg, recovRate = tRecovered tg,
        lastFlareDispatch = l0 \<rparr>)"

text \<open>\<open>const lerp = (a, b, f = 0.12) => a + (b - a) * f\<close>; every call site omits \<open>f\<close>.\<close>

definition lerp :: "real \<Rightarrow> real \<Rightarrow> real \<Rightarrow> real" where
  "lerp a b f = a + (b - a) * f"

definition lerp_default :: "real \<Rightarrow> real \<Rightarrow> real" where
  "lerp_default a b = lerp a b 0.12"

text \<open>The seven functional state updates of one run of \<open>smooth\<close>.\<close>

definition smooth_metrics :: "targets \<Rightarrow> portal \<Rightarrow> portal" where
  "smooth_metrics tg s =
     s\<lparr> oilRate := lerp_default (oilRate s) (tOil tg),
        gasRate := lerp_default (gasRate s) (tGas tg),
        waterCut := lerp_default (waterCut s) (tWaterCut tg),
        tankLevel := lerp_default (tankLevel s) (tTank tg),
        sepPressure := lerp_default (sepPressure s) (tSepP tg),
        flareRate := lerp_default (flareRate s) (tFlare tg),
        recovRate := lerp_default (recovRate s) (tRecovered tg) \<rparr>"

datatype notification = FlareRateChange real | RecoveredChange real

text \<open>
  The throttle test \<open>window.__lastFlareDispatch === undefined || now - window.__lastFlareDispatch > 250\<close>.
\<close>

definition due :: "real option \<Rightarrow> real \<Rightarrow> bool" where
  "due l now = (case l of None \<Rightarrow> True | Some l' \<Rightarrow> now - l' > 250)"

text \<open>
  One run of the animation-frame callback \<open>smooth\<close>. \<open>tg\<close> are the targets its closure
  captured, \<open>onFlare\<close> and \<open>onRecovered\<close> say whether the two callbacks were passed,
  \<open>now\<close> is \<open>performance.now()\<close> in milliseconds. The result is the new state and the
  callbacks invoked, in order, with their arguments.
\<close>

definition smooth :: "targets \<Rightarrow> bool \<Rightarrow> bool \<Rightarrow> real \<Rightarrow> portal \<Rightarrow> portal \<times> notification list" where
  "smooth tg onFlare onRecovered now s =
     (let s1 = smooth_metrics tg s in
      if onFlare then
        (if due (lastFlareDispatch s1) now
         then (s1\<lparr>lastFlareDispatch := Some now\<rparr>,
               FlareRateChange (tFlare tg) #
                 (if onRecovered then [RecoveredChange (tRecovered tg)] else []))
         else (s1, []))
      else (s1, []))"

text \<open>
  The states the component can be in: the initial render, then any number of runs of
  \<open>smooth\<close>, each with the targets of some tick (a frame loop started under an earlier
  tick keeps its captured targets).
\<close>

inductive reachable :: "portal \<Rightarrow> bool" where
  reach_init: "reachable (initial_portal l0)"
| reach_smooth: "reachable s \<Longrightarrow> reachable (fst (smooth (targets_of tick) onFlare onRecovered now s))"

text \<open>The Capture Efficiency readout of the render, before \<open>toFixed(0)\<close>.\<close>

definition capEff_readout :: "portal \<Rightarrow> real option" where
  "capEff_readout s =
     map_option (\<lambda>q. q * 100) (js_div (recovRate s) (recovRate s + flareRate s))"

text \<open>The guarded \<open>capEff\<close> of the pulse effect.\<close>

definition capEff_pulse :: "portal \<Rightarrow> real option" where
  "capEff_pulse s =
     (if recovRate s + flareRate s > 0
      then map_option (\<lambda>q. q * 100) (js_div (recovRate s) (recovRate s + flareRate s))
      else Some 0)"

text \<open>
  Successive runs of \<open>smooth\<close>: each input is the targets captured by the closure that
  runs and the time it reads. The trace lists the callbacks invoked with the time of the
  run that invoked them.
\<close>

fun frames :: "bool \<Rightarrow> bool \<Rightarrow> (targets \<times> real) list \<Rightarrow> portal
    \<Rightarrow> portal \<times> (real \<times> notification) list" where
  "frames onFlare onRecovered [] s = (s, [])"
| "frames onFlare onRecovered ((tg, now) # ins) s =
     (let (s1, ns) = smooth tg onFlare onRecovered now s;
          (s2, rest) = frames onFlare onRecovered ins s1
      in (s2, map (Pair now) ns @ rest))"

text \<open>The times at which \<open>onFlareRateChange\<close> was invoked.\<close>

fun flare_times :: "(real \<times> notification) list \<Rightarrow> real list" where
  "flare_times [] = []"
| "flare_times ((t, FlareRateChange v) # tr) = t # flare_times tr"
| "flare_times ((t, RecoveredChange v) # tr) = flare_times tr"

text \<open>Each time is more than 250 ms after the one before it (\<open>l\<close>: the one before the first).\<close>

fun spaced :: "real option \<Rightarrow> real list \<Rightarrow> bool" where
  "spaced l [] = True"
| "spaced l (t # ts) = ((case l of None \<Rightarrow> True | Some l' \<Rightarrow> t - l' > 250) \<and> spaced (Some t) ts)"

datatype signal = Oil | Gas | WaterCut | Tank | SepP | Flare | Recovered

fun displayed :: "signal \<Rightarrow> portal \<Rightarrow> real" where
  "displayed Oil s = oilRate s"
| "displayed Gas s = gasRate s"
| "displayed WaterCut s = waterCut s"
| "displayed Tank s = tankLevel s"
| "displayed SepP s = sepPressure s"
| "displayed Flare s = flareRate s"
| "displayed Recovered s = recovRate s"

fun target :: "signal \<Rightarrow> targets \<Rightarrow> real" where
  "target Oil tg = tOil tg"
| "target Gas tg = tGas tg"
| "target WaterCut tg = tWaterCut tg"
| "target Tank tg = tTank tg"
| "target SepP tg = tSepP tg"
| "target Flare tg = tFlare tg"
| "target Recovered tg = tRecovered tg"

subsection \<open>The frame loops of the smoothing effect (SupportPortal.tsx, lines 437 to 459)\<close>

text \<open>
  The browser's animation-frame queue as the effect uses it. \<open>requestAnimationFrame\<close>
  appends a callback to the queue and returns a fresh id; \<open>cancelAnimationFrame(id)\<close>
  removes the request with that id, if it is still queued; an animation frame runs the
  callbacks queued at its start, in the order they were requested, and those they request
  run in the next frame. A queued callback is the function \<open>smooth\<close> of some run of the
  effect, so it is given by the targets that run captured.
\<close>

record frame_loop =
  captured :: targets
  request :: nat

text \<open>
  The component and the queue: the displayed states, the \<open>tick\<close> state, the queue, the next
  id the browser hands out, and the \<open>id\<close> that the cleanup of the latest run of the effect
  closes over (\<open>None\<close> before the effect has run).
\<close>

record page =
  shown :: portal
  tick_state :: nat
  queue :: "frame_loop list"
  next_request :: nat
  cleanup_id :: "nat option"

definition requestAnimationFrame :: "targets \<Rightarrow> page \<Rightarrow> nat \<times> page" where
  "requestAnimationFrame tg p =
     (next_request p,
      p\<lparr> queue := queue p @ [\<lparr>captured = tg, request = next_request p\<rparr>],
         next_request := Suc (next_request p) \<rparr>)"

definition cancelAnimationFrame :: "nat \<Rightarrow> page \<Rightarrow> page" where
  "cancelAnimationFrame i p = p\<lparr> queue := filter (\<lambda>l. request l \<noteq> i) (queue p) \<rparr>"

text \<open>
  The body of the effect, \<open>const id = requestAnimationFrame(function smooth() {...})\<close>,
  with the targets of the render that runs it, and its cleanup
  \<open>() => cancelAnimationFrame(id)\<close>. When a dependency has changed, the cleanup of the
  previous run is called and then the body.
\<close>

definition smoothing_effect :: "page \<Rightarrow> page" where
  "smoothing_effect p =
     (let (i, p1) = requestAnimationFrame (targets_of (tick_state p)) p
      in p1\<lparr> cleanup_id := Some i \<rparr>)"

definition smoothing_cleanup :: "page \<Rightarrow> page" where
  "smoothing_cleanup p = (case cleanup_id p of None \<Rightarrow> p | Some i \<Rightarrow> cancelAnimationFrame i p)"

definition rerun_effect :: "page \<Rightarrow> page" where
  "rerun_effect p = smoothing_effect (smoothing_cleanup p)"

text \<open>The first render (\<open>tick = 0\<close>, every displayed state at its target) and its effect.\<close>

definition mount_metrics :: "real option \<Rightarrow> page" where
  "mount_metrics l0 =
     smoothing_effect
       \<lparr> shown = initial_portal l0, tick_state = 0, queue = [], next_request = 0,
         cleanup_id = None \<rparr>"

text \<open>
  One queued callback run at the time \<open>now\<close>: the body of \<open>smooth\<close> with the targets it
  captured, whose last statement \<open>requestAnimationFrame(smooth)\<close> queues it again under a
  new id, which is not stored. An animation frame runs the callbacks that were queued.
\<close>

definition run_callback :: "bool \<Rightarrow> bool \<Rightarrow> real \<Rightarrow> frame_loop \<Rightarrow> page \<Rightarrow> page" where
  "run_callback onFlare onRecovered now l p =
     snd (requestAnimationFrame (captured l)
            (p\<lparr> shown := fst (smooth (captured l) onFlare onRecovered now (shown p)) \<rparr>))"

definition animation_frame :: "bool \<Rightarrow> bool \<Rightarrow> real \<Rightarrow> page \<Rightarrow> page" where
  "animation_frame onFlare onRecovered now p =
     fold (run_callback onFlare onRecovered now) (queue p) (p\<lparr> queue := [] \<rparr>)"

text \<open>
  \<open>setInterval(() => setTick(t => t+1), 1500)\<close>: the render after it computes the targets
  of the new tick, and the effect runs again if one of them differs from the previous
  render's (the callbacks passed by the parent are the same objects, the parent has not
  rendered). A render of the parent passes new function objects for
  \<open>onFlareRateChange\<close> and \<open>onRecoveredChange\<close> (they are written inline, line 391), so
  the effect runs again.
\<close>

definition interval_tick :: "page \<Rightarrow> page" where
  "interval_tick p =
     (let p1 = p\<lparr> tick_state := Suc (tick_state p) \<rparr>
      in if targets_of (tick_state p1) = targets_of (tick_state p) then p1 else rerun_effect p1)"

definition parent_render :: "page \<Rightarrow> page" where
  "parent_render p = rerun_effect p"

datatype event = AnimationFrame real | IntervalTick | ParentRender

fun handle :: "bool \<Rightarrow> bool \<Rightarrow> event \<Rightarrow> page \<Rightarrow> page" where
  "handle onFlare onRecovered (AnimationFrame now) p = animation_frame onFlare onRecovered now p"
| "handle onFlare onRecovered IntervalTick p = interval_tick p"
| "handle onFlare onRecovered ParentRender p = parent_render p"

definition run_events :: "bool \<Rightarrow> bool \<Rightarrow> event list \<Rightarrow> page \<Rightarrow> page" where
  "run_events onFlare onRecovered evs p = fold (handle onFlare onRecovered) evs p"

text \<open>
  The component from its mount to the frames \<open>nows\<close> of tick 1: a first animation frame,
  then frames and renders of the parent in any order (\<open>pre\<close>), the first tick of the
  interval, and the frames at the times \<open>nows\<close>, during which the targets are those of
  tick 1.
\<close>

definition first_tick_held :: "bool \<Rightarrow> bool \<Rightarrow> real option \<Rightarrow> real \<Rightarrow> event list \<Rightarrow> real list \<Rightarrow> page" where
  "first_tick_held onFlare onRecovered l0 now0 pre nows =
     run_events onFlare onRecovered
       (AnimationFrame now0 # pre @ IntervalTick # map AnimationFrame nows)
       (mount_metrics l0)"

text \<open>
  Conditions on the queue used below. Ids are handed out in increasing order. Before the
  first tick every queued callback captured the targets of tick 0 and the flare rate shown
  is their 12. A queued callback is out of reach when its id is not the one the cleanup
  holds: no \<open>cancelAnimationFrame\<close> of the component can remove it.
\<close>

definition well_numbered :: "page \<Rightarrow> bool" where
  "well_numbered p =
     ((\<forall>l \<in> set (queue p). request l < next_request p) \<and>
      (\<forall>i. cleanup_id p = Some i \<longrightarrow> i < next_request p))"

definition out_of_reach :: "page \<Rightarrow> frame_loop \<Rightarrow> bool" where
  "out_of_reach p l = (cleanup_id p \<noteq> Some (request l))"

definition before_tick :: "page \<Rightarrow> bool" where
  "before_tick p =
     (well_numbered p \<and> tick_state p = 0 \<and> flareRate (shown p) = 12 \<and>
      (\<forall>l \<in> set (queue p). captured l = targets_of 0) \<and>
      (\<exists>l \<in> set (queue p). out_of_reach p l))"

text \<open>
  During tick 1: the queue holds one or more callbacks that captured the targets of tick 0,
  followed by the one of the current run of the effect, and the flare rate shown is short of
  its target by at least 22/47 of the step from 12 to the target.
\<close>

definition during_tick_one :: "page \<Rightarrow> bool" where
  "during_tick_one p =
     (tick_state p = 1 \<and>
      (\<exists>k. map captured (queue p) = replicate (Suc k) (targets_of 0) @ [targets_of 1]) \<and>
      22 / 47 * (tFlare (targets_of 1) - 12) \<le> tFlare (targets_of 1) - flareRate (shown p))"

section \<open>Production pad scene: the frame loop (ThreeDashboard.tsx, animate)\<close>

text \<open>
  The part of \<open>animate\<close> modelled here is the frame delta, the two fans of the vapor
  recovery unit and the flare puff system. A \<open>THREE.Vector3\<close> is a triple of reals. A puff
  carries the fields of the \<open>Puff\<close> interface; its mesh is an identity (a number, fresh per
  \<open>new Mesh\<close>) together with the mesh state the loop writes: position, uniform scale and
  the shader uniforms \<open>uLife\<close> and \<open>uSeed\<close>.
\<close>

type_synonym vec3 = "real \<times> real \<times> real"

record puff =
  mesh :: nat
  life :: real
  maxLife :: real
  puff_v :: vec3
  startScale :: real
  endScale :: real
  mesh_position :: vec3
  mesh_scale :: real
  uLife :: real
  uSeed :: real

text \<open>
  \<open>puffGroup\<close> is the set of meshes attached to the puff group, \<open>disposed\<close> the set of
  meshes whose material was disposed. \<open>coolerFan_rotation_y\<close> is \<open>None\<close> when
  \<open>vruGroup.userData.coolerFan\<close> is missing. \<open>rng\<close> counts the calls of
  \<open>Math.random()\<close> made so far; the values it returns are a parameter \<open>rnd\<close> of the
  functions that draw.
\<close>

record dashboard =
  lastT :: real
  fanDisc_rotation_y :: real
  coolerFan_rotation_y :: "real option"
  puffs :: "puff list"
  puffGroup :: "nat set"
  disposed :: "nat set"
  puffSpawnAccum :: real
  next_mesh :: nat
  rng :: nat

definition FLARE_PUFF_THRESHOLD :: real where
  "FLARE_PUFF_THRESHOLD = 14"

definition MAX_ACTIVE_PUFFS :: nat where
  "MAX_ACTIVE_PUFFS = 40"

text \<open>
  \<open>spawnPuff(strength)\<close>. The draws are, in evaluation order: \<open>uSeed\<close> in
  \<open>makePuffMaterial\<close>, \<open>maxLife\<close>, the three components of \<open>v\<close>, \<open>endScale\<close>.
\<close>

definition spawnPuff :: "(nat \<Rightarrow> real) \<Rightarrow> real \<Rightarrow> dashboard \<Rightarrow> dashboard" where
  "spawnPuff rnd strength s =
     (if length (puffs s) \<ge> MAX_ACTIVE_PUFFS then s
      else
        let r = rng s;
            m = next_mesh s;
            p = \<lparr> mesh = m,
                  life = 0,
                  maxLife = 0.9 + rnd (r + 1) * 0.6,
                  puff_v = ((rnd (r + 2) - 0.5) * 0.15,
                            0.9 + rnd (r + 3) * 0.6 + strength * 0.05,
                            (rnd (r + 4) - 0.5) * 0.15),
                  startScale = 0.15,
                  endScale = 0.75 + strength * 0.05 + rnd (r + 5) * 0.15,
                  mesh_position = (0, 0, 0),
                  mesh_scale = 0.15,
                  uLife = 0,
                  uSeed = rnd r * 1000 \<rparr>
        in s\<lparr> puffs := puffs s @ [p],
               puffGroup := insert m (puffGroup s),
               next_mesh := Suc m,
               rng := r + 6 \<rparr>)"

text \<open>\<open>while (puffSpawnAccum > 1) { spawnPuff(excess); puffSpawnAccum -= 1; }\<close>\<close>

function spawn_loop :: "(nat \<Rightarrow> real) \<Rightarrow> real \<Rightarrow> dashboard \<Rightarrow> dashboard" where
  "spawn_loop rnd excess s =
     (if puffSpawnAccum s > 1
      then spawn_loop rnd excess ((spawnPuff rnd excess s)\<lparr>puffSpawnAccum := puffSpawnAccum s - 1\<rparr>)
      else s)"
  by pat_completeness auto
termination
proof (relation "measure (\<lambda>(rnd, excess, s). nat \<lceil>puffSpawnAccum s\<rceil>)")
  show "wf (measure (\<lambda>(rnd, excess, s). nat \<lceil>puffSpawnAccum s\<rceil>))"
    by simp
next
  fix rnd :: "nat \<Rightarrow> real" and excess :: real and s :: dashboard
  assume "1 < puffSpawnAccum s"
  then have "1 < \<lceil>puffSpawnAccum s\<rceil>"
    by (simp add: less_ceiling_iff)
  then show "((rnd, excess, (spawnPuff rnd excess s)\<lparr>puffSpawnAccum := puffSpawnAccum s - 1\<rparr>),
              rnd, excess, s) \<in> measure (\<lambda>(rnd, excess, s). nat \<lceil>puffSpawnAccum s\<rceil>)"
    by simp
qed

text \<open>The emission block: it runs only when the live rate is above the threshold.\<close>

definition emit :: "(nat \<Rightarrow> real) \<Rightarrow> real \<Rightarrow> real \<Rightarrow> dashboard \<Rightarrow> dashboard" where
  "emit rnd dt currentRate s =
     (if currentRate > FLARE_PUFF_THRESHOLD then
        let excess = currentRate - FLARE_PUFF_THRESHOLD;
            spawnRate = 2 + excess * 0.35
        in spawn_loop rnd excess (s\<lparr>puffSpawnAccum := puffSpawnAccum s + dt * spawnRate\<rparr>)
      else s)"

text \<open>
  One pass of the body of the update loop, for the puff at index \<open>i\<close>:
  \<open>p.life += dt\<close>, then either the removal (detach, dispose, \<open>splice(i, 1)\<close>) or the
  motion, growth and fade.
\<close>

definition lifeFraction :: "puff \<Rightarrow> real" where
  "lifeFraction p = (if maxLife p > 0 then life p / maxLife p else 1)"

definition move_puff :: "real \<Rightarrow> puff \<Rightarrow> puff" where
  "move_puff dt p =
     (let lf = lifeFraction p;
          (px, py, pz) = mesh_position p;
          (ux, uy, uz) = puff_v p
      in p\<lparr> mesh_position := (px + ux * dt, py + uy * dt, pz + uz * dt),
             mesh_scale := startScale p + (endScale p - startScale p) * lf,
             uLife := lf \<rparr>)"

definition update_puff_at :: "nat \<Rightarrow> real \<Rightarrow> dashboard \<Rightarrow> dashboard" where
  "update_puff_at i dt s =
     (let p = (puffs s ! i)\<lparr>life := life (puffs s ! i) + dt\<rparr> in
      if lifeFraction p \<ge> 1
      then s\<lparr> puffs := take i (puffs s) @ drop (Suc i) (puffs s),
               puffGroup := puffGroup s - {mesh p},
               disposed := insert (mesh p) (disposed s) \<rparr>
      else s\<lparr> puffs := (puffs s)[i := move_puff dt p] \<rparr>)"

text \<open>
  \<open>for (let i = puffs.length - 1; i >= 0; i--)\<close>: \<open>update_loop n\<close> runs the body for the
  indices \<open>n - 1\<close> down to 0, every one of them inside the array.
\<close>

fun update_loop :: "nat \<Rightarrow> real \<Rightarrow> dashboard \<Rightarrow> dashboard" where
  "update_loop 0 dt s = s"
| "update_loop (Suc i) dt s = update_loop i dt (update_puff_at i dt s)"

definition update_puffs :: "real \<Rightarrow> dashboard \<Rightarrow> dashboard" where
  "update_puffs dt s = update_loop (length (puffs s)) dt s"

text \<open>
  What the loop does to one puff, used to describe its result: \<open>aged\<close> is the puff after
  \<open>p.life += dt\<close>, \<open>expired\<close> the removal test on it, \<open>survivors\<close> the puffs that stay,
  moved.
\<close>

definition aged :: "real \<Rightarrow> puff \<Rightarrow> puff" where
  "aged dt p = p\<lparr>life := life p + dt\<rparr>"

definition expired :: "real \<Rightarrow> puff \<Rightarrow> bool" where
  "expired dt p = (lifeFraction (aged dt p) \<ge> 1)"

definition survivors :: "real \<Rightarrow> puff list \<Rightarrow> puff list" where
  "survivors dt ps = map (\<lambda>p. move_puff dt (aged dt p)) (filter (\<lambda>p. \<not> expired dt p) ps)"

text \<open>
  The fans. \<open>rv\<close> is \<open>recoveredVaporRateRef.current || 0\<close>; on reals \<open>x || 0\<close> is \<open>x\<close>.
\<close>

definition fan_speed :: "real \<Rightarrow> real" where
  "fan_speed rv = 2.5 + min 12 rv * 0.12"

definition cooler_spin :: "real \<Rightarrow> real" where
  "cooler_spin rv = 4.5 + min 18 rv * 0.28"

text \<open>
  One frame: \<open>t\<close> is \<open>clock.getElapsedTime()\<close>, \<open>currentRate\<close> is
  \<open>flareRateRef.current\<close>, \<open>rv\<close> the recovered vapor rate.
\<close>

definition animate :: "(nat \<Rightarrow> real) \<Rightarrow> real \<Rightarrow> real \<Rightarrow> real \<Rightarrow> dashboard \<Rightarrow> dashboard" where
  "animate rnd t currentRate rv s =
     (let dt = t - lastT s;
          s1 = s\<lparr>lastT := t\<rparr>;
          s2 = s1\<lparr>fanDisc_rotation_y := fanDisc_rotation_y s1 + dt * fan_speed rv\<rparr>;
          s3 = s2\<lparr>coolerFan_rotation_y :=
                   map_option (\<lambda>ry. ry + dt * cooler_spin rv) (coolerFan_rotation_y s2)\<rparr>;
          s4 = emit rnd dt currentRate s3
      in update_puffs dt s4)"

text \<open>The state the mount effect leaves before the first frame.\<close>

definition initial_dashboard :: dashboard where
  "initial_dashboard =
     \<lparr> lastT = 0, fanDisc_rotation_y = 0, coolerFan_rotation_y = Some 0, puffs = [],
       puffGroup = {}, disposed = {}, puffSpawnAccum = 0, next_mesh = 0, rng = 0 \<rparr>"

text \<open>A run of frames; each input is the clock reading, the flare rate and the vapor rate.\<close>

fun run_frames :: "(nat \<Rightarrow> real) \<Rightarrow> (real \<times> real \<times> real) list \<Rightarrow> dashboard \<Rightarrow> dashboard" where
  "run_frames rnd [] s = s"
| "run_frames rnd ((t, currentRate, rv) # fs) s = run_frames rnd fs (animate rnd t currentRate rv s)"



section \<open>Pump assembly scene: the frame loop (AssemblyExplodedScene.tsx, animate)\<close>

text \<open>
  \<open>animate\<close> is defined inside the mount effect, whose dependency list is empty: the
  \<open>isExploded\<close> it reads is the value of the first render, \<open>INITIAL_EXPLODED\<close>. The
  rotation of the spin group is \<open>None\<close> when \<open>impellerSpinRef.current\<close> is null, that
  of the motor when no part has the key \<open>motor\<close>.
\<close>

definition INITIAL_EXPLODED :: bool where
  "INITIAL_EXPLODED = False"



section \<open>Selection highlight (the focus effects of both scenes)\<close>

text \<open>
  A \<open>THREE.Color\<close> is its three channels. \<open>setHex\<close> reads the channels off a 24-bit
  number, \<open>getHex\<close> rounds them back, \<open>lerp\<close> interpolates channel by channel. The
  library's colour-space conversion between the two is left out.
\<close>

type_synonym color = "real \<times> real \<times> real"

definition channel :: "nat \<Rightarrow> real" where
  "channel n = real (n mod 256) / 255"

definition Color_setHex :: "nat \<Rightarrow> color" where
  "Color_setHex hex = (channel (hex div 65536), channel (hex div 256), channel hex)"

definition byte_of :: "real \<Rightarrow> nat" where
  "byte_of c = nat (round (max 0 (min 255 (c * 255))))"

definition Color_getHex :: "color \<Rightarrow> nat" where
  "Color_getHex c = (case c of (r, g, b) \<Rightarrow> byte_of r * 65536 + byte_of g * 256 + byte_of b)"

definition Color_lerp :: "color \<Rightarrow> color \<Rightarrow> real \<Rightarrow> color" where
  "Color_lerp c1 c2 alpha =
     (case (c1, c2) of ((r1, g1, b1), (r2, g2, b2)) \<Rightarrow>
        (r1 + (r2 - r1) * alpha, g1 + (g2 - g1) * alpha, b1 + (b2 - b1) * alpha))"

text \<open>
  A material: \<open>standard\<close> says that it passes the scene's test (\<open>instanceof
  MeshStandardMaterial\<close> on the production pad, a defined \<open>emissive\<close> in the pump
  assembly); \<open>emissiveIntensity\<close> is \<open>None\<close> when undefined. \<open>origEmissive\<close> and
  \<open>origIntensity\<close> are the two \<open>userData\<close> entries that cache the original state
  (\<open>__origEmissive\<close>, \<open>__origIntensity\<close>; \<open>__origE\<close>, \<open>__origEI\<close> in the pump
  assembly), \<open>None\<close> while undefined. Materials live in a store indexed by identity, so
  that two meshes can share one.
\<close>

record material =
  standard :: bool
  emissive :: color
  emissiveIntensity :: "real option"
  origEmissive :: "nat option"
  origIntensity :: "real option"

type_synonym store = "nat \<Rightarrow> material"

text \<open>
  The scene graph: a node is a group or a mesh, a mesh has one material or an array of
  them. \<open>traverse\<close> calls back on the node, then on its descendants, depth first.
\<close>

datatype material_slot = Single nat | Multi "nat list"

datatype object3d = Group "object3d list" | Mesh material_slot "object3d list"

fun nodes :: "object3d \<Rightarrow> object3d list" where
  "nodes (Group ch) = Group ch # concat (map nodes ch)"
| "nodes (Mesh slot ch) = Mesh slot ch # concat (map nodes ch)"

definition traverse :: "(object3d \<Rightarrow> 's \<Rightarrow> 's) \<Rightarrow> object3d \<Rightarrow> 's \<Rightarrow> 's" where
  "traverse f obj = fold f (nodes obj)"

text \<open>\<open>ids.forEach(i => store[i] = f(store[i]))\<close>\<close>

definition apply_each :: "(material \<Rightarrow> material) \<Rightarrow> nat list \<Rightarrow> store \<Rightarrow> store" where
  "apply_each f ids st = fold (\<lambda>i st'. st'(i := f (st' i))) ids st"

text \<open>JavaScript truthiness of a \<open>string | null\<close>: null and the empty string are falsy.\<close>

definition truthy :: "string option \<Rightarrow> bool" where
  "truthy focus = (case focus of None \<Rightarrow> False | Some k \<Rightarrow> k \<noteq> [])"

subsection \<open>Production pad (ThreeDashboard.tsx)\<close>

definition td_reset_material :: "material \<Rightarrow> material" where
  "td_reset_material m =
     (if standard m then
        (case origEmissive m of
           None \<Rightarrow> m
         | Some h \<Rightarrow>
             (let m1 = m\<lparr>emissive := Color_setHex h\<rparr> in
              case origIntensity m1 of
                None \<Rightarrow> m1
              | Some oi \<Rightarrow> m1\<lparr>emissiveIntensity := Some oi\<rparr>))
      else m)"

definition td_highlight_material :: "material \<Rightarrow> material" where
  "td_highlight_material m =
     (if standard m then
        (let m1 = (case origEmissive m of
                     None \<Rightarrow> m\<lparr> origEmissive := Some (Color_getHex (emissive m)),
                                 origIntensity := Some (case emissiveIntensity m of
                                                          Some ei \<Rightarrow> ei | None \<Rightarrow> 1) \<rparr>
                   | Some h \<Rightarrow> m)
         in m1\<lparr> emissive := Color_setHex 0x1d86d5, emissiveIntensity := Some 1.2 \<rparr>)
      else m)"

text \<open>\<open>Array.isArray(child.material) ? child.material : [child.material]\<close>\<close>

fun td_mats :: "material_slot \<Rightarrow> nat list" where
  "td_mats (Single i) = [i]"
| "td_mats (Multi ids) = ids"

fun td_visit :: "(material \<Rightarrow> material) \<Rightarrow> object3d \<Rightarrow> store \<Rightarrow> store" where
  "td_visit f (Group ch) st = st"
| "td_visit f (Mesh slot ch) st = apply_each f (td_mats slot) st"

text \<open>
  The focus effect, run on every change of \<open>focus\<close>; \<open>sets\<close> is
  \<open>highlightablesRef.current\<close>. The camera tween and the outline pass, which write no
  material, are left out.
\<close>

definition td_focus_effect :: "string option \<Rightarrow> (string \<times> object3d list) list \<Rightarrow> store \<Rightarrow> store" where
  "td_focus_effect focus sets st =
     (if sets = [] then st
      else
        let st1 = fold (\<lambda>(k, objs). fold (traverse (td_visit td_reset_material)) objs) sets st in
        if \<not> truthy focus then st1
        else
          (case find (\<lambda>(k, objs). Some k = focus) sets of
             None \<Rightarrow> st1
           | Some (k, objs) \<Rightarrow> fold (traverse (td_visit td_highlight_material)) objs st1))"

subsection \<open>Pump assembly (AssemblyExplodedScene.tsx)\<close>

record part =
  key :: string
  group :: object3d
  finalPos :: vec3
  explodedPos :: vec3

definition as_reset_material :: "material \<Rightarrow> material" where
  "as_reset_material m =
     (if standard m then
        (case origEmissive m of
           None \<Rightarrow> m
         | Some h \<Rightarrow> m\<lparr> emissive := Color_setHex h, emissiveIntensity := origIntensity m \<rparr>)
      else m)"

definition highlightHex :: nat where
  "highlightHex = 0xffa640"

text \<open>
  The \<open>try\<close> around the blend has no modelled failure: constructing and interpolating a
  colour does not throw.
\<close>

definition as_highlight_material :: "material \<Rightarrow> material" where
  "as_highlight_material m =
     (if standard m then
        (let m1 = (case origEmissive m of
                     None \<Rightarrow> m\<lparr> origEmissive := Some (Color_getHex (emissive m)),
                                 origIntensity := Some (case emissiveIntensity m of
                                                          Some ei \<Rightarrow> ei | None \<Rightarrow> 1) \<rparr>
                   | Some h \<Rightarrow> m);
             orig = Color_setHex (case origEmissive m1 of Some h \<Rightarrow> h | None \<Rightarrow> 0);
             hl = Color_setHex highlightHex
         in m1\<lparr> emissive := Color_lerp orig hl 0.65,
                emissiveIntensity :=
                  Some (min ((case origIntensity m1 of Some oi \<Rightarrow> oi | None \<Rightarrow> 0.3) + 0.25) 0.75) \<rparr>)
      else m)"

text \<open>\<open>o.isMesh && o.material && o.material.emissive\<close>: an array of materials has no \<open>emissive\<close>.\<close>

fun as_mats :: "material_slot \<Rightarrow> nat list" where
  "as_mats (Single i) = [i]"
| "as_mats (Multi ids) = []"

fun as_visit :: "(material \<Rightarrow> material) \<Rightarrow> object3d \<Rightarrow> store \<Rightarrow> store" where
  "as_visit f (Group ch) st = st"
| "as_visit f (Mesh slot ch) st = apply_each f (as_mats slot) st"

text \<open>The focus effect; the scale pulse, which writes no material, is left out.\<close>

definition as_focus_effect :: "string option \<Rightarrow> part list \<Rightarrow> store \<Rightarrow> store" where
  "as_focus_effect focus parts st =
     (let st1 = fold (\<lambda>p. traverse (as_visit as_reset_material) (group p)) parts st in
      if truthy focus then
        (case find (\<lambda>p. Some (key p) = focus) parts of
           None \<Rightarrow> st1
         | Some tgt \<Rightarrow> traverse (as_visit as_highlight_material) (group tgt) st1)
      else st1)"

subsection \<open>Reading the effects\<close>

text \<open>
  The materials a traversal of a node reaches, in order, for each scene; the registry
  entry of a part as its key with its materials; and one description of both effects:
  reset every registered material, then highlight those of the entry the focus names.
\<close>

fun td_node_mats :: "object3d \<Rightarrow> nat list" where
  "td_node_mats (Group ch) = []"
| "td_node_mats (Mesh slot ch) = td_mats slot"

fun as_node_mats :: "object3d \<Rightarrow> nat list" where
  "as_node_mats (Group ch) = []"
| "as_node_mats (Mesh slot ch) = as_mats slot"

definition td_entry :: "string \<times> object3d list \<Rightarrow> string \<times> nat list" where
  "td_entry e = (fst e, concat (map (\<lambda>obj. concat (map td_node_mats (nodes obj))) (snd e)))"

definition as_entry :: "part \<Rightarrow> string \<times> nat list" where
  "as_entry p = (key p, concat (map as_node_mats (nodes (group p))))"

definition focus_target :: "string option \<Rightarrow> (string \<times> nat list) list \<Rightarrow> (string \<times> nat list) option" where
  "focus_target focus reg = (if truthy focus then find (\<lambda>e. Some (fst e) = focus) reg else None)"

definition gen_focus :: "(material \<Rightarrow> material) \<Rightarrow> (material \<Rightarrow> material) \<Rightarrow> string option
    \<Rightarrow> (string \<times> nat list) list \<Rightarrow> store \<Rightarrow> store" where
  "gen_focus reset highlight focus reg st =
     (let st1 = apply_each reset (concat (map snd reg)) st in
      case focus_target focus reg of
        None \<Rightarrow> st1
      | Some e \<Rightarrow> apply_each highlight (snd e) st1)"

text \<open>
  A material is altered when it passes the scene's test, its original state is cached and
  its current emissive state differs from the cache; a registry entry carries a highlight
  when one of its materials is altered.
\<close>

definition altered :: "material \<Rightarrow> bool" where
  "altered m =
     (standard m \<and>
      (case origEmissive m of
         None \<Rightarrow> False
       | Some h \<Rightarrow>
           emissive m \<noteq> Color_setHex h \<or>
           (case origIntensity m of None \<Rightarrow> False | Some oi \<Rightarrow> emissiveIntensity m \<noteq> Some oi)))"

definition carries :: "store \<Rightarrow> string \<times> nat list \<Rightarrow> bool" where
  "carries st e = (\<exists>i \<in> set (snd e). altered (st i))"

text \<open>
  A material whose original emissive state is the colour of \<open>h\<close> at intensity \<open>v\<close>: it
  still has that state and no cache, or the cache holds it.
\<close>

definition keeps_original :: "nat \<Rightarrow> real \<Rightarrow> material \<Rightarrow> bool" where
  "keeps_original h v m =
     (standard m \<and>
      (origEmissive m = None \<and> emissive m = Color_setHex h \<and> emissiveIntensity m = Some v
       \<or> origEmissive m = Some h \<and> origIntensity m = Some v))"

text \<open>A sequence of focus changes, for each scene.\<close>

definition td_focus_run :: "string option list \<Rightarrow> (string \<times> object3d list) list \<Rightarrow> store \<Rightarrow> store" where
  "td_focus_run fs sets st = fold (\<lambda>focus. td_focus_effect focus sets) fs st"

definition as_focus_run :: "string option list \<Rightarrow> part list \<Rightarrow> store \<Rightarrow> store" where
  "as_focus_run fs parts st = fold (\<lambda>focus. as_focus_effect focus parts) fs st"

definition disjoint_entries :: "(string \<times> nat list) list \<Rightarrow> bool" where
  "disjoint_entries reg =
     (\<forall>e1 \<in> set reg. \<forall>e2 \<in> set reg. e1 \<noteq> e2 \<longrightarrow> set (snd e1) \<inter> set (snd e2) = {})"

definition td_registry :: "(string \<times> object3d list) list \<Rightarrow> (string \<times> nat list) list" where
  "td_registry sets = map td_entry sets"

definition as_registry :: "part list \<Rightarrow> (string \<times> nat list) list" where
  "as_registry parts = map as_entry parts"

section \<open>Explode and assemble (AssemblyExplodedScene.tsx, toggleAssembly)\<close>

text \<open>
  The animation library is outside the repository. What the scene uses of it is modelled
  as follows. \<open>gsap.to(target, {x, y, z, duration, delay, ease})\<close> creates a tween that is
  alive until it completes or \<open>kill()\<close> is called on it. On every tick of the library
  each live tween advances by the frame delta; once its delay has passed it reads its start
  values from the target at its first render and from then on writes
  \<open>start + (end - start) * ease(progress)\<close>, completing at progress 1. The target of the
  tweens here is the position of a part's group, named by the index of the part.
\<close>

record tween =
  tw_part :: nat
  tw_to :: vec3
  tw_duration :: real
  tw_delay :: real
  tw_time :: real
  tw_from :: "vec3 option"
  tw_active :: bool

text \<open>The ease \<open>power3.inOut\<close> and the interpolation of the three coordinates.\<close>

definition power3_inOut :: "real \<Rightarrow> real" where
  "power3_inOut p = (if p < 1 / 2 then (2 * p) ^ 4 / 2 else 1 - (2 * (1 - p)) ^ 4 / 2)"

definition tween_value :: "vec3 \<Rightarrow> vec3 \<Rightarrow> real \<Rightarrow> vec3" where
  "tween_value a b r =
     (case (a, b) of ((ax, ay, az), (bx, by, bz)) \<Rightarrow>
        (ax + (bx - ax) * r, ay + (by - ay) * r, az + (bz - az) * r))"

text \<open>The start values of a tween: the ones it has read, or else the target's current ones.\<close>

definition start_of :: "vec3 list \<Rightarrow> tween \<Rightarrow> vec3" where
  "start_of ps tw = (case tw_from tw of Some f \<Rightarrow> f | None \<Rightarrow> ps ! tw_part tw)"

definition step_tween :: "real \<Rightarrow> tween \<Rightarrow> vec3 list \<Rightarrow> tween \<times> vec3 list" where
  "step_tween dt tw ps =
     (if \<not> tw_active tw then (tw, ps)
      else
        let t = tw_time tw + dt;
            tw1 = tw\<lparr>tw_time := t\<rparr>
        in if t < tw_delay tw1 then (tw1, ps)
           else
             let start = start_of ps tw1;
                 progress = min 1 ((t - tw_delay tw1) / tw_duration tw1)
             in (tw1\<lparr>tw_from := Some start, tw_active := (progress < 1)\<rparr>,
                 ps[tw_part tw1 := tween_value start (tw_to tw1) (power3_inOut progress)]))"

fun tick_tweens :: "real \<Rightarrow> tween list \<Rightarrow> vec3 list \<Rightarrow> tween list \<times> vec3 list" where
  "tick_tweens dt [] ps = ([], ps)"
| "tick_tweens dt (tw # tws) ps =
     (let (tw', ps1) = step_tween dt tw ps;
          (tws', ps2) = tick_tweens dt tws ps1
      in (tw' # tws', ps2))"

text \<open>\<open>ids.forEach(t => t.kill())\<close>, the tweens named by their index in the library's list.\<close>

definition kill :: "nat \<Rightarrow> tween list \<Rightarrow> tween list" where
  "kill j tws = (if j < length tws then tws[j := (tws ! j)\<lparr>tw_active := False\<rparr>] else tws)"

definition kill_all :: "nat list \<Rightarrow> tween list \<Rightarrow> tween list" where
  "kill_all ids tws = fold kill ids tws"

text \<open>
  The state of the scene that the toggle touches: the React state \<open>isExploded\<close>, the
  position of each part's group (in the order of \<open>partsRef.current\<close>), every tween the
  library holds, and \<open>assemblingRef.current\<close> (\<open>None\<close> is null).
\<close>

record assembly =
  isExploded :: bool
  positions :: "vec3 list"
  tweens :: "tween list"
  assemblingRef :: "nat list option"

text \<open>The tween \<open>toggleAssembly\<close> creates for the part at index \<open>i\<close>.\<close>

definition new_tween :: "bool \<Rightarrow> nat \<Rightarrow> part \<Rightarrow> tween" where
  "new_tween exploded i p =
     \<lparr> tw_part = i,
       tw_to = (if exploded then finalPos p else explodedPos p),
       tw_duration = 1.4,
       tw_delay = real i * 0.08,
       tw_time = 0,
       tw_from = None,
       tw_active = True \<rparr>"

text \<open>
  \<open>assemblingRef.current?.forEach(t => t.kill())\<close> leaves the library's list as
  \<open>kill_running\<close> gives it. \<open>toggleAssembly\<close> as one render defines it: \<open>exploded\<close> is the \<open>isExploded\<close> that
  render captured, while \<open>setIsExploded(e => !e)\<close> negates the state.
\<close>

definition kill_running :: "assembly \<Rightarrow> tween list" where
  "kill_running s = (case assemblingRef s of None \<Rightarrow> tweens s | Some ids \<Rightarrow> kill_all ids (tweens s))"

definition toggleAssembly :: "bool \<Rightarrow> part list \<Rightarrow> assembly \<Rightarrow> assembly" where
  "toggleAssembly exploded parts s =
     (if parts = [] then s
      else
        let killed = kill_running s;
            created = map (\<lambda>(i, p). new_tween exploded i p) (enumerate 0 parts)
        in s\<lparr> tweens := killed @ created,
               assemblingRef := Some [length killed ..< length killed + length parts],
               isExploded := \<not> isExploded s \<rparr>)"

text \<open>
  A click on the button. The button carries the \<open>toggleAssembly\<close> of the latest render,
  and the state update of a click is rendered before the next click is handled, so the
  captured value is the current state.
\<close>

definition click :: "part list \<Rightarrow> assembly \<Rightarrow> assembly" where
  "click parts s = toggleAssembly (isExploded s) parts s"

text \<open>One tick of the library, and a run of ticks.\<close>

definition gsap_tick :: "real \<Rightarrow> assembly \<Rightarrow> assembly" where
  "gsap_tick dt s =
     (let (tws, ps) = tick_tweens dt (tweens s) (positions s)
      in s\<lparr>tweens := tws, positions := ps\<rparr>)"

definition gsap_ticks :: "real list \<Rightarrow> assembly \<Rightarrow> assembly" where
  "gsap_ticks dts s = fold gsap_tick dts s"

text \<open>The scene as mounted: every part at the position of the initial mode, no tween.\<close>

definition initial_assembly :: "part list \<Rightarrow> assembly" where
  "initial_assembly parts =
     \<lparr> isExploded = INITIAL_EXPLODED,
       positions = map (\<lambda>p. if INITIAL_EXPLODED then explodedPos p else finalPos p) parts,
       tweens = [],
       assemblingRef = None \<rparr>"

text \<open>
  The target of a part in the mode \<open>exploded\<close>, and the condition under which the tween
  \<open>tw\<close> of a toggle is in order: \<open>t\<close> is the time since the toggle, \<open>p0\<close> the positions
  at the toggle, \<open>ps\<close> the positions now. A live tween has run for \<open>t\<close>, is not yet due
  to complete, and its start values are those of the toggle; one that is no longer alive
  has left its part at its end values.
\<close>

definition mode_target :: "bool \<Rightarrow> part \<Rightarrow> vec3" where
  "mode_target exploded p = (if exploded then explodedPos p else finalPos p)"

definition in_order :: "vec3 list \<Rightarrow> real \<Rightarrow> vec3 list \<Rightarrow> tween \<Rightarrow> bool" where
  "in_order p0 t ps tw =
     (tw_part tw < length ps \<and> 0 < tw_duration tw \<and>
      (if tw_active tw
       then tw_time tw = t \<and> t < tw_delay tw + tw_duration tw \<and>
            start_of ps tw = p0 ! tw_part tw
       else ps ! tw_part tw = tw_to tw))"

text \<open>
  Every live tween is one that \<open>assemblingRef\<close> names; and the state \<open>t\<close> seconds after
  a toggle toward the mode \<open>mode\<close> made at the positions \<open>p0\<close>: the last tweens of the
  library's list are those of the toggle, one per part and in order, the earlier ones are
  no longer alive.
\<close>

definition covered :: "assembly \<Rightarrow> bool" where
  "covered s =
     (\<forall>i < length (tweens s). tw_active (tweens s ! i) \<longrightarrow>
        (case assemblingRef s of None \<Rightarrow> False | Some ids \<Rightarrow> i \<in> set ids))"

definition toggled :: "part list \<Rightarrow> bool \<Rightarrow> vec3 list \<Rightarrow> real \<Rightarrow> assembly \<Rightarrow> bool" where
  "toggled parts mode p0 t s =
     (let n = length parts;
          k = length (tweens s) - n;
          fam = drop k (tweens s)
      in n \<le> length (tweens s) \<and> length (positions s) = n \<and>
         (\<forall>tw \<in> set (take k (tweens s)). \<not> tw_active tw) \<and>
         assemblingRef s = Some [k ..< k + n] \<and>
         map tw_part fam = [0 ..< n] \<and>
         map tw_to fam = map (mode_target mode) parts \<and>
         map tw_delay fam = map (\<lambda>i. real i * 0.08) [0 ..< n] \<and>
         map tw_duration fam = replicate n 1.4 \<and>
         (\<forall>tw \<in> set fam. in_order p0 t (positions s) tw))"

section \<open>Mount effects and the ready callback\<close>

text \<open>
  The \<open>api\<close> passed to \<open>onReady\<close> closes over the renderer of the mount; \<open>capture()\<close>
  is \<open>renderer.domElement.toDataURL('image/png')\<close>. A canvas is named by a number, its
  framebuffer is a list of numbers, and the data URI is the MIME type with the framebuffer
  it encodes.
\<close>

datatype data_uri = DataURI string "nat list"

datatype capture_api = Capture nat

definition capture :: "capture_api \<Rightarrow> (nat \<Rightarrow> nat list) \<Rightarrow> data_uri" where
  "capture api framebuffers = (case api of Capture c \<Rightarrow> DataURI ''image/png'' (framebuffers c))"

text \<open>
  The body of a mount effect is a list of statements in source order. The two returns end
  the effect: nothing after them runs. \<open>run_effect\<close> yields what the effect did and whether
  it returned its cleanup function; \<open>el\<close> says that the container exists, \<open>onReady\<close> that
  the callback was passed.
\<close>

datatype action =
  CreateRenderer nat | AddListener string | StartAnimate | OnReady capture_api
  | LoadAssets | AddRealismToggle

datatype stmt = Do action | ReturnUnlessContainer | CallOnReady capture_api | ReturnCleanup

fun run_effect :: "bool \<Rightarrow> bool \<Rightarrow> stmt list \<Rightarrow> action list \<times> bool" where
  "run_effect el onReady [] = ([], False)"
| "run_effect el onReady (Do a # rest) =
     (let (tr, cleanup) = run_effect el onReady rest in (a # tr, cleanup))"
| "run_effect el onReady (ReturnUnlessContainer # rest) =
     (if el then run_effect el onReady rest else ([], False))"
| "run_effect el onReady (CallOnReady api # rest) =
     (let (tr, cleanup) = run_effect el onReady rest
      in (if onReady then OnReady api # tr else tr, cleanup))"
| "run_effect el onReady (ReturnCleanup # rest) = ([], True)"

text \<open>
  ThreeDashboard.tsx: the cleanup is returned at line 1786, before the block headed
  "Expose capture API" at line 1822, the asset loading and the realism toggle.
\<close>

definition ThreeDashboard_mount :: "nat \<Rightarrow> stmt list" where
  "ThreeDashboard_mount c =
     [ReturnUnlessContainer, Do (CreateRenderer c), Do (AddListener ''pointermove''),
      Do (AddListener ''pointerdown''), Do StartAnimate, Do (AddListener ''resize''),
      ReturnCleanup,
      CallOnReady (Capture c), Do LoadAssets, Do AddRealismToggle]"

text \<open>AssemblyExplodedScene.tsx: the callback is invoked at line 351, the cleanup returned at 353.\<close>

definition AssemblyExplodedScene_mount :: "nat \<Rightarrow> stmt list" where
  "AssemblyExplodedScene_mount c =
     [ReturnUnlessContainer, Do (CreateRenderer c), Do (AddListener ''pointerdown''),
      Do StartAnimate, Do (AddListener ''resize''),
      CallOnReady (Capture c),
      ReturnCleanup]"

fun ready_calls :: "action list \<Rightarrow> capture_api list" where
  "ready_calls [] = []"
| "ready_calls (OnReady api # tr) = api # ready_calls tr"
| "ready_calls (a # tr) = ready_calls tr"

section \<open>Concrete inputs\<close>

text \<open>A source of random numbers that always returns one half.\<close>

definition rnd_half :: "nat \<Rightarrow> real" where
  "rnd_half n = 1 / 2"

text \<open>A puff of age 1 with a lifetime of 1.2, attached as mesh 7.\<close>

definition old_puff :: puff where
  "old_puff =
     \<lparr> mesh = 7, life = 1, maxLife = 1.2, puff_v = (0, 1, 0), startScale = 0.15,
       endScale = 0.8, mesh_position = (0, 1, 0), mesh_scale = 0.7, uLife = 0.8, uSeed = 0 \<rparr>"

definition one_puff_dashboard :: dashboard where
  "one_puff_dashboard = initial_dashboard\<lparr>puffs := [old_puff], puffGroup := {7}, next_mesh := 8\<rparr>"

definition full_dashboard :: dashboard where
  "full_dashboard = initial_dashboard\<lparr>puffs := replicate 40 old_puff, puffGroup := {7}, next_mesh := 8\<rparr>"

text \<open>
  Two highlightable sets of the production pad and two parts of the pump assembly, over a
  store of materials with the emissive state of the tank shell.
\<close>

definition shell_material :: material where
  "shell_material =
     \<lparr> standard = True, emissive = Color_setHex 0x0d1012, emissiveIntensity = Some 0.18,
       origEmissive = None, origIntensity = None \<rparr>"

definition example_store :: store where
  "example_store = (\<lambda>i. shell_material)"

definition example_sets :: "(string \<times> object3d list) list" where
  "example_sets =
     [(''pumpjack'', [Mesh (Single 3) []]),
      (''tanks'', [Group [Mesh (Single 4) [], Mesh (Multi [5]) []]])]"

definition example_parts :: "part list" where
  "example_parts =
     [\<lparr> key = ''motor'', group = Group [Mesh (Single 3) []],
        finalPos = (- 2.4, 3.5, 0), explodedPos = (- 11, 3.5, 0) \<rparr>,
      \<lparr> key = ''impeller'', group = Group [Group [Mesh (Single 4) [], Mesh (Single 5) []]],
        finalPos = (8.3, 3.5, 0), explodedPos = (17, 3.5, 0) \<rparr>]"

section \<open>Properties of the metric feed\<close>

lemma displayed_smooth_metrics:
  "displayed sg (smooth_metrics tg s) = lerp_default (displayed sg s) (target sg tg)"
  by (cases sg) (simp_all add: smooth_metrics_def)

lemma lerp_default_gap: "lerp_default d T - T = (d - T) * (22 / 25)"
  by (simp add: lerp_default_def lerp_def field_simps)

lemma displayed_smooth:
  "displayed sg (fst (smooth tg onF onR now s)) = lerp_default (displayed sg s) (target sg tg)"
  by (cases sg) (simp_all add: smooth_def smooth_metrics_def Let_def split: option.splits)

lemma fst_frames_same:
  "displayed sg (fst (frames onF onR (map (Pair tg) nows) s)) - target sg tg
     = (displayed sg s - target sg tg) * (22 / 25) ^ length nows"
proof (induction nows arbitrary: s)
  case Nil
  show ?case by simp
next
  case (Cons now nows)
  have "displayed sg (fst (frames onF onR (map (Pair tg) (now # nows)) s)) - target sg tg
      = displayed sg (fst (frames onF onR (map (Pair tg) nows) (fst (smooth tg onF onR now s)))) - target sg tg"
    by (simp add: split_beta Let_def)
  also have "\<dots> = (displayed sg (fst (smooth tg onF onR now s)) - target sg tg) * (22 / 25) ^ length nows"
    by (rule Cons.IH)
  also have "\<dots> = (displayed sg s - target sg tg) * (22 / 25) ^ length (now # nows)"
    by (simp add: displayed_smooth lerp_default_gap)
  finally show ?case .
qed

lemma pow_22_25_50: "(22 / 25 :: real) ^ 50 \<le> 1 / 500"
  by (simp add: power_divide)

lemma pow_22_25_ge50: "50 \<le> n \<Longrightarrow> (22 / 25 :: real) ^ n \<le> 1 / 500"
proof -
  assume "50 \<le> n"
  then have "(22 / 25 :: real) ^ n \<le> (22 / 25) ^ 50"
    by (intro power_decreasing) simp_all
  with pow_22_25_50 show ?thesis by linarith
qed

text \<open>
  Runs of \<open>smooth\<close> that all captured the same targets, with no other run between them:
  a displayed value that starts below its target rises and never passes it, one that starts
  above falls and never passes it, and after 50 or more runs the remaining gap is at most
  one five-hundredth of the initial gap (\<open>0.88 ^ 50 < 0.002\<close>). This is the behaviour of a
  single frame loop; the loops the component really runs are treated further below.
\<close>

lemma one_loop_converges:
  "displayed sg (fst (smooth tg onF onR now s))
      = displayed sg s + (target sg tg - displayed sg s) * 0.12
   \<and> (displayed sg s \<le> target sg tg \<longrightarrow>
        displayed sg (fst (frames onF onR (map (Pair tg) nows) s))
          \<le> displayed sg (fst (frames onF onR (map (Pair tg) (nows @ [now])) s))
        \<and> displayed sg (fst (frames onF onR (map (Pair tg) (nows @ [now])) s)) \<le> target sg tg)
   \<and> (target sg tg \<le> displayed sg s \<longrightarrow>
        target sg tg \<le> displayed sg (fst (frames onF onR (map (Pair tg) (nows @ [now])) s))
        \<and> displayed sg (fst (frames onF onR (map (Pair tg) (nows @ [now])) s))
          \<le> displayed sg (fst (frames onF onR (map (Pair tg) nows) s)))
   \<and> (50 \<le> length nows \<longrightarrow>
        \<bar>displayed sg (fst (frames onF onR (map (Pair tg) nows) s)) - target sg tg\<bar>
          \<le> \<bar>displayed sg s - target sg tg\<bar> / 500)"
proof -
  let ?T = "target sg tg"
  let ?d = "\<lambda>ns. displayed sg (fst (frames onF onR (map (Pair tg) ns) s))"
  let ?q = "22 / 25 :: real"
  have gap: "?d ns - ?T = (displayed sg s - ?T) * ?q ^ length ns" for ns
    by (rule fst_frames_same)
  have q0: "0 \<le> ?q ^ k" and q1: "?q ^ k \<le> 1" for k :: nat
    by (simp_all add: power_le_one)
  have step: "?d (nows @ [now]) - ?T = (?d nows - ?T) * ?q"
    by (simp only: gap [of "nows @ [now]"] gap [of nows]) simp
  have one: "displayed sg (fst (smooth tg onF onR now s))
      = displayed sg s + (?T - displayed sg s) * 0.12"
    by (simp add: displayed_smooth lerp_default_def lerp_def)
  have up: "?d nows \<le> ?d (nows @ [now]) \<and> ?d (nows @ [now]) \<le> ?T" if "displayed sg s \<le> ?T"
  proof -
    have "(displayed sg s - ?T) * ?q ^ length nows \<le> 0"
      using that q0 [of "length nows"] by (simp add: mult_le_0_iff)
    then have "?d nows - ?T \<le> 0" by (simp only: gap)
    with step show ?thesis by (simp add: field_simps)
  qed
  have down: "?T \<le> ?d (nows @ [now]) \<and> ?d (nows @ [now]) \<le> ?d nows" if "?T \<le> displayed sg s"
  proof -
    have "0 \<le> (displayed sg s - ?T) * ?q ^ length nows"
      using that q0 [of "length nows"] by simp
    then have "0 \<le> ?d nows - ?T" by (simp only: gap)
    with step show ?thesis by (simp add: field_simps)
  qed
  have conv: "\<bar>?d nows - ?T\<bar> \<le> \<bar>displayed sg s - ?T\<bar> / 500" if "50 \<le> length nows"
  proof -
    have "\<bar>?d nows - ?T\<bar> = \<bar>displayed sg s - ?T\<bar> * ?q ^ length nows"
      by (simp only: gap abs_mult) simp
    also have "\<dots> \<le> \<bar>displayed sg s - ?T\<bar> * (1 / 500)"
      by (intro mult_left_mono pow_22_25_ge50 that) simp
    finally show ?thesis by simp
  qed
  from one up down conv show ?thesis by blast
qed

subsection \<open>Capture efficiency\<close>

lemma tFlare_bounds: "12 \<le> tFlare (targets_of tick) \<and> tFlare (targets_of tick) \<le> 18"
proof -
  have "sin (real tick * 1.1) \<le> 1" by (rule sin_le_one)
  then show ?thesis by (simp add: targets_of_def Let_def max_def)
qed

lemma tRecovered_aux: "- 1 \<le> a \<Longrightarrow> 0 \<le> b \<Longrightarrow> (3::real) \<le> 5.5 + a * 2 + b * 0.15"
  by simp

lemma tRecovered_pos: "3 \<le> tRecovered (targets_of tick)"
  unfolding targets_of_def Let_def
  by (simp only: targets.simps) (rule tRecovered_aux, simp_all)

lemma lerp_default_convex: "lerp_default a b = (22 / 25) * a + (3 / 25) * b"
  by (simp add: lerp_default_def lerp_def field_simps)

lemma lerp_default_lower: "c \<le> a \<Longrightarrow> c \<le> b \<Longrightarrow> c \<le> lerp_default a b"
  unfolding lerp_default_convex by linarith

lemma reachable_bounds: "reachable s \<Longrightarrow> 12 \<le> flareRate s \<and> 3 \<le> recovRate s"
proof (induction rule: reachable.induct)
  case (reach_init l0)
  show ?case
    using tFlare_bounds [of 0] tRecovered_pos [of 0] by (simp add: initial_portal_def Let_def)
next
  case (reach_smooth s tick onFlare onRecovered now)
  have f: "flareRate (fst (smooth (targets_of tick) onFlare onRecovered now s))
             = lerp_default (flareRate s) (tFlare (targets_of tick))"
    using displayed_smooth [of Flare] by simp
  have r: "recovRate (fst (smooth (targets_of tick) onFlare onRecovered now s))
             = lerp_default (recovRate s) (tRecovered (targets_of tick))"
    using displayed_smooth [of Recovered] by simp
  show ?case
    unfolding f r
    using reach_smooth.IH tFlare_bounds [of tick] tRecovered_pos [of tick]
    by (simp add: lerp_default_lower)
qed

text \<open>
  Claim C10. The flare target is at least 12. One run of \<open>smooth\<close> replaces a displayed
  value by the convex combination \<open>0.88 * displayed + 0.12 * target\<close>. So in every
  reachable state the displayed flare rate is at least 12, the displayed recovered rate is
  positive, the denominator of the Capture Efficiency readout is positive, and the readout is
  a finite number strictly between 0 and 100 that agrees with the guarded value of the pulse
  effect. The guard exists only in the pulse effect: in a state where the two rates cancel
  the readout is not a finite number while the pulse effect computes 0.
\<close>

theorem capture_efficiency_defined:
  "reachable s \<Longrightarrow>
     12 \<le> tFlare (targets_of tick)
     \<and> displayed sg (fst (smooth tg onF onR now s))
         = (22 / 25) * displayed sg s + (3 / 25) * target sg tg
     \<and> 12 \<le> flareRate s \<and> 0 < recovRate s \<and> 0 < recovRate s + flareRate s
     \<and> (\<exists>v. capEff_readout s = Some v \<and> 0 < v \<and> v < 100 \<and> capEff_pulse s = Some v)
     \<and> capEff_readout (s\<lparr>recovRate := - 1, flareRate := 1\<rparr>) = None
     \<and> capEff_pulse (s\<lparr>recovRate := - 1, flareRate := 1\<rparr>) = Some 0"
proof -
  assume "reachable s"
  then have b: "12 \<le> flareRate s" "3 \<le> recovRate s"
    using reachable_bounds by blast+
  have den: "0 < recovRate s + flareRate s" using b by linarith
  have q: "0 < recovRate s / (recovRate s + flareRate s)"
          "recovRate s / (recovRate s + flareRate s) < 1"
    using b by (simp_all add: field_simps)
  have scale: "0 < x \<Longrightarrow> x < 1 \<Longrightarrow> 0 < x * 100 \<and> x * 100 < 100" for x :: real
    by simp
  note q100 = scale [OF q, THEN conjunct1] and q100' = scale [OF q, THEN conjunct2]
  have ro: "capEff_readout s = Some (recovRate s / (recovRate s + flareRate s) * 100)"
    using den by (simp add: capEff_readout_def js_div_def)
  have pu: "capEff_pulse s = Some (recovRate s / (recovRate s + flareRate s) * 100)"
    using den by (simp add: capEff_pulse_def js_div_def)
  have ex: "\<exists>v. capEff_readout s = Some v \<and> 0 < v \<and> v < 100 \<and> capEff_pulse s = Some v"
    using q100 q100' ro pu by blast
  have unguarded: "capEff_readout (s\<lparr>recovRate := - 1, flareRate := 1\<rparr>) = None"
      "capEff_pulse (s\<lparr>recovRate := - 1, flareRate := 1\<rparr>) = Some 0"
    by (simp_all add: capEff_readout_def capEff_pulse_def js_div_def)
  have conv: "displayed sg (fst (smooth tg onF onR now s))
         = (22 / 25) * displayed sg s + (3 / 25) * target sg tg"
    by (simp add: displayed_smooth lerp_default_convex)
  from tFlare_bounds [of tick] conv b den ex unguarded show ?thesis by simp
qed

text \<open>The state after the first frame of tick 1.\<close>

theorem capture_efficiency_defined_witness:
  "reachable (fst (smooth (targets_of 1) True True 0 (initial_portal None)))
   \<and> 12 \<le> flareRate (fst (smooth (targets_of 1) True True 0 (initial_portal None)))
   \<and> 0 < recovRate (fst (smooth (targets_of 1) True True 0 (initial_portal None)))
        + flareRate (fst (smooth (targets_of 1) True True 0 (initial_portal None)))
   \<and> (\<exists>v. capEff_readout (fst (smooth (targets_of 1) True True 0 (initial_portal None))) = Some v
          \<and> 0 < v \<and> v < 100)"
proof -
  have r: "reachable (fst (smooth (targets_of 1) True True 0 (initial_portal None)))"
    by (intro reachable.intros)
  from capture_efficiency_defined [OF r, of 0 Flare "targets_of 0" True True 0] r
  show ?thesis by blast
qed

subsection \<open>Notification of the 3D engine\<close>

lemma smooth_metrics_last [simp]: "lastFlareDispatch (smooth_metrics tg s) = lastFlareDispatch s"
  by (simp add: smooth_metrics_def)

lemma snd_smooth:
  "snd (smooth tg onF onR now s) =
     (if onF \<and> due (lastFlareDispatch s) now
      then FlareRateChange (tFlare tg) # (if onR then [RecoveredChange (tRecovered tg)] else [])
      else [])"
  by (simp add: smooth_def Let_def due_def)

lemma last_smooth:
  "lastFlareDispatch (fst (smooth tg onF onR now s)) =
     (if onF \<and> due (lastFlareDispatch s) now then Some now else lastFlareDispatch s)"
  by (simp add: smooth_def Let_def due_def)

lemma flare_times_append: "flare_times (a @ b) = flare_times a @ flare_times b"
  by (induction a rule: flare_times.induct) simp_all

lemma flare_times_smooth:
  "flare_times (map (Pair now) (snd (smooth tg onF onR now s))) =
     (if onF \<and> due (lastFlareDispatch s) now then [now] else [])"
  by (simp add: snd_smooth)

lemma frames_spaced:
  "spaced (lastFlareDispatch s) (flare_times (snd (frames onF onR ins s)))"
proof (induction ins arbitrary: s)
  case Nil
  show ?case by simp
next
  case (Cons a ins)
  obtain tg now where a: "a = (tg, now)" by (cases a)
  let ?s1 = "fst (smooth tg onF onR now s)"
  have tr: "flare_times (snd (frames onF onR (a # ins) s))
      = (if onF \<and> due (lastFlareDispatch s) now then [now] else [])
        @ flare_times (snd (frames onF onR ins ?s1))"
    by (simp add: a split_beta Let_def flare_times_append flare_times_smooth)
  show ?case
  proof (cases "onF \<and> due (lastFlareDispatch s) now")
    case True
    have l1: "lastFlareDispatch ?s1 = Some now"
      by (simp only: last_smooth if_P [OF True])
    have d: "case lastFlareDispatch s of None \<Rightarrow> True | Some l' \<Rightarrow> now - l' > 250"
      using True by (simp add: due_def)
    from Cons.IH [of ?s1] have "spaced (Some now) (flare_times (snd (frames onF onR ins ?s1)))"
      by (simp only: l1)
    with d show ?thesis
      by (simp only: tr if_P [OF True] append.simps spaced.simps)
  next
    case False
    have l1: "lastFlareDispatch ?s1 = lastFlareDispatch s"
      by (simp only: last_smooth if_not_P [OF False])
    from Cons.IH [of ?s1] show ?thesis
      by (simp only: tr if_not_P [OF False] append.simps l1)
  qed
qed

lemma spaced_weaken: "spaced l ts \<Longrightarrow> spaced None ts"
  by (cases ts) simp_all

lemma spaced_span:
  "spaced l ts \<Longrightarrow> i + k < length ts \<Longrightarrow> 250 * real k \<le> ts ! (i + k) - ts ! i
     \<and> (0 < k \<longrightarrow> 250 * real k < ts ! (i + k) - ts ! i)"
proof (induction ts arbitrary: l i k)
  case Nil
  then show ?case by simp
next
  case (Cons t ts)
  from Cons.prems(1) have sp: "spaced (Some t) ts" by simp
  show ?case
  proof (cases i)
    case (Suc i')
    with Cons.IH [OF sp, of i' k] Cons.prems(2) show ?thesis by simp
  next
    case 0
    show ?thesis
    proof (cases k)
      case 0
      with \<open>i = 0\<close> show ?thesis by simp
    next
      case (Suc k')
      from Cons.prems(2) \<open>i = 0\<close> Suc have len: "0 + k' < length ts" by simp
      then obtain u us where ts: "ts = u # us" by (cases ts) auto
      from sp ts have "250 < u - t" by simp
      moreover from Cons.IH [OF sp len] have "250 * real k' \<le> ts ! k' - ts ! 0" by simp
      ultimately have "250 * real (Suc k') < ts ! k' - t" using ts by simp
      with \<open>i = 0\<close> Suc show ?thesis by simp
    qed
  qed
qed

text \<open>
  Claim C5, as the code has it. A run of \<open>smooth\<close> that notifies passes the targets its
  closure captured (\<open>tFlare\<close>, then \<open>tRecovered\<close>), whatever the displayed values
  are. Over any sequence of runs each \<open>onFlareRateChange\<close> call comes more than 250 ms
  after the previous one, so five successive calls span more than one second.
\<close>

theorem notification_carries_target:
  "snd (smooth tg onF onR now s) =
     (if onF \<and> due (lastFlareDispatch s) now
      then FlareRateChange (tFlare tg) # (if onR then [RecoveredChange (tRecovered tg)] else [])
      else [])
   \<and> snd (smooth tg onF onR now (s\<lparr>flareRate := x, recovRate := y\<rparr>)) = snd (smooth tg onF onR now s)
   \<and> spaced (lastFlareDispatch s) (flare_times (snd (frames onF onR ins s)))
   \<and> (i + 4 < length (flare_times (snd (frames onF onR ins s))) \<longrightarrow>
        1000 < flare_times (snd (frames onF onR ins s)) ! (i + 4)
               - flare_times (snd (frames onF onR ins s)) ! i)"
proof -
  have a: "snd (smooth tg onF onR now (s\<lparr>flareRate := x, recovRate := y\<rparr>))
      = snd (smooth tg onF onR now s)"
    by (simp add: snd_smooth)
  have b: "1000 < flare_times (snd (frames onF onR ins s)) ! (i + 4)
               - flare_times (snd (frames onF onR ins s)) ! i"
    if "i + 4 < length (flare_times (snd (frames onF onR ins s)))"
    using spaced_span [OF frames_spaced that] by simp
  from a b frames_spaced [of s onF onR ins] snd_smooth [of tg onF onR now s]
  show ?thesis by simp
qed

text \<open>
  Claim C5 as stated fails: in the first frame after the tick changes to 1, the value passed
  to \<open>onFlareRateChange\<close> is the new target, which is above the displayed flare rate both
  before and after that frame's update.
\<close>

theorem notification_is_displayed_counterexample:
  "snd (smooth (targets_of 1) True True 0 (initial_portal None))
     = [FlareRateChange (tFlare (targets_of 1)), RecoveredChange (tRecovered (targets_of 1))]
   \<and> flareRate (initial_portal None) = 12
   \<and> flareRate (initial_portal None) < flareRate (fst (smooth (targets_of 1) True True 0 (initial_portal None)))
   \<and> flareRate (fst (smooth (targets_of 1) True True 0 (initial_portal None))) < tFlare (targets_of 1)"
proof -
  have pos: "0 < sin (11 / 10 :: real)"
    by (rule sin_gt_zero_02) simp_all
  have t1: "tFlare (targets_of 1) = 12 + sin (11 / 10) * 6"
    using pos by (simp add: targets_of_def Let_def max_def)
  have f0: "flareRate (initial_portal None) = 12"
    by (simp add: initial_portal_def targets_of_def Let_def)
  have f1: "flareRate (fst (smooth (targets_of 1) True True 0 (initial_portal None)))
      = lerp_default 12 (tFlare (targets_of 1))"
    using displayed_smooth [of Flare "targets_of 1" True True 0 "initial_portal None"]
    by (simp add: f0)
  have n: "snd (smooth (targets_of 1) True True 0 (initial_portal None))
     = [FlareRateChange (tFlare (targets_of 1)), RecoveredChange (tRecovered (targets_of 1))]"
    by (simp add: snd_smooth due_def initial_portal_def Let_def)
  have g: "12 < T \<Longrightarrow> 12 < lerp_default 12 T \<and> lerp_default 12 T < T" for T
    by (simp add: lerp_default_def lerp_def field_simps)
  have "12 < tFlare (targets_of 1)"
    unfolding t1 using pos by simp
  from g [OF this] n f0 f1 show ?thesis by simp
qed

text \<open>Five runs 300 ms apart, all of which notify.\<close>

theorem notification_carries_target_witness:
  "flare_times (snd (frames True True
      [(targets_of 0, 0), (targets_of 0, 300), (targets_of 0, 600), (targets_of 1, 900),
       (targets_of 1, 1200)] (initial_portal None))) = [0, 300, 600, 900, 1200]
   \<and> 1000 < flare_times (snd (frames True True
      [(targets_of 0, 0), (targets_of 0, 300), (targets_of 0, 600), (targets_of 1, 900),
       (targets_of 1, 1200)] (initial_portal None))) ! (0 + 4)
     - flare_times (snd (frames True True
      [(targets_of 0, 0), (targets_of 0, 300), (targets_of 0, 600), (targets_of 1, 900),
       (targets_of 1, 1200)] (initial_portal None))) ! 0"
proof -
  have l0: "lastFlareDispatch (initial_portal None) = None"
    by (simp add: initial_portal_def Let_def)
  have ts: "flare_times (snd (frames True True
      [(targets_of 0, 0), (targets_of 0, 300), (targets_of 0, 600), (targets_of 1, 900),
       (targets_of 1, 1200)] (initial_portal None))) = [0, 300, 600, 900, 1200]"
    by (simp add: split_beta Let_def flare_times_append flare_times_smooth last_smooth due_def l0)
  have len: "0 + 4 < length (flare_times (snd (frames True True
      [(targets_of 0, 0), (targets_of 0, 300), (targets_of 0, 600), (targets_of 1, 900),
       (targets_of 1, 1200)] (initial_portal None))))"
    by (simp only: ts) simp
  from notification_carries_target [of "targets_of 0" True True 0 "initial_portal None" 0 0
      "[(targets_of 0, 0), (targets_of 0, 300), (targets_of 0, 600), (targets_of 1, 900),
       (targets_of 1, 1200)]" 0] len ts
  show ?thesis by blast
qed

section \<open>The frame loops of the smoothing effect\<close>

lemma requestAnimationFrame_fields:
  "queue (snd (requestAnimationFrame tg p)) = queue p @ [\<lparr>captured = tg, request = next_request p\<rparr>]"
  "next_request (snd (requestAnimationFrame tg p)) = Suc (next_request p)"
  "shown (snd (requestAnimationFrame tg p)) = shown p"
  "tick_state (snd (requestAnimationFrame tg p)) = tick_state p"
  "cleanup_id (snd (requestAnimationFrame tg p)) = cleanup_id p"
  "fst (requestAnimationFrame tg p) = next_request p"
  by (simp_all add: requestAnimationFrame_def)

lemma run_callback_fields:
  "queue (run_callback onF onR now l p) = queue p @ [\<lparr>captured = captured l, request = next_request p\<rparr>]"
  "next_request (run_callback onF onR now l p) = Suc (next_request p)"
  "shown (run_callback onF onR now l p) = fst (smooth (captured l) onF onR now (shown p))"
  "tick_state (run_callback onF onR now l p) = tick_state p"
  "cleanup_id (run_callback onF onR now l p) = cleanup_id p"
  by (simp_all add: run_callback_def requestAnimationFrame_def)

lemma fold_run_callback:
  "map captured (queue (fold (run_callback onF onR now) ls p)) = map captured (queue p) @ map captured ls
   \<and> next_request (fold (run_callback onF onR now) ls p) = next_request p + length ls
   \<and> tick_state (fold (run_callback onF onR now) ls p) = tick_state p
   \<and> cleanup_id (fold (run_callback onF onR now) ls p) = cleanup_id p
   \<and> displayed sg (shown (fold (run_callback onF onR now) ls p))
       = fold (\<lambda>l d. lerp_default d (target sg (captured l))) ls (displayed sg (shown p))"
proof (induction ls arbitrary: p)
  case Nil
  show ?case by simp
next
  case (Cons l ls)
  show ?case
    using Cons.IH [of "run_callback onF onR now l p"]
    by (simp add: run_callback_fields displayed_smooth)
qed

lemma fold_run_callback_ids:
  "\<forall>l \<in> set (queue (fold (run_callback onF onR now) ls p)).
      l \<in> set (queue p) \<or> next_request p \<le> request l"
proof (induction ls arbitrary: p)
  case Nil
  show ?case by simp
next
  case (Cons l ls)
  show ?case
    using Cons.IH [of "run_callback onF onR now l p"]
    by (auto simp: run_callback_fields)
qed

lemma animation_frame_fields:
  "map captured (queue (animation_frame onF onR now p)) = map captured (queue p)"
  "next_request (animation_frame onF onR now p) = next_request p + length (queue p)"
  "tick_state (animation_frame onF onR now p) = tick_state p"
  "cleanup_id (animation_frame onF onR now p) = cleanup_id p"
  "displayed sg (shown (animation_frame onF onR now p))
     = fold (\<lambda>l d. lerp_default d (target sg (captured l))) (queue p) (displayed sg (shown p))"
  using fold_run_callback [of onF onR now "queue p" "p\<lparr>queue := []\<rparr>" sg]
  by (simp_all add: animation_frame_def)

lemma animation_frame_ids:
  "\<forall>l \<in> set (queue (animation_frame onF onR now p)). next_request p \<le> request l"
  using fold_run_callback_ids [of onF onR now "queue p" "p\<lparr>queue := []\<rparr>"]
  by (simp add: animation_frame_def)

lemma sin_11_10: "(43 / 50 :: real) < sin (11 / 10)"
proof -
  have set5: "{..<5::nat} = {0, 1, 2, 3, 4}" by auto
  have c: "sin_coeff (Suc 0) = 1" "sin_coeff 2 = 0" "sin_coeff 3 = - 1 / 6" "sin_coeff 4 = 0"
    unfolding sin_coeff_def by (simp_all add: fact_numeral)
  have "(\<Sum>m<5. sin_coeff m * (11 / 10 :: real) ^ m) = 11 / 10 - (11 / 10) ^ 3 / 6"
    by (simp add: set5 c)
  moreover have "\<bar>sin (11 / 10 :: real) - (\<Sum>m<5. sin_coeff m * (11 / 10) ^ m)\<bar>
      \<le> inverse (fact 5) * \<bar>11 / 10 :: real\<bar> ^ 5"
    by (rule Maclaurin_sin_bound)
  moreover have "inverse (fact 5) * \<bar>11 / 10 :: real\<bar> ^ 5 = (11 / 10) ^ 5 / 120"
    by (simp add: fact_numeral)
  ultimately have "11 / 10 - (11 / 10) ^ 3 / 6 - (11 / 10) ^ 5 / 120 \<le> sin (11 / 10 :: real)"
    by linarith
  moreover have "(43 / 50 :: real) < 11 / 10 - (11 / 10) ^ 3 / 6 - (11 / 10) ^ 5 / 120"
    by (simp add: power_divide)
  ultimately show ?thesis by linarith
qed

lemma tFlare_0: "tFlare (targets_of 0) = 12"
  by (simp add: targets_of_def)

lemma tFlare_1: "tFlare (targets_of 1) = 12 + 6 * sin (11 / 10)"
proof -
  have "0 < sin (11 / 10 :: real)" using sin_11_10 by linarith
  then show ?thesis by (simp add: targets_of_def Let_def max_def)
qed

lemma targets_change: "targets_of (Suc 0) \<noteq> targets_of 0"
proof
  assume "targets_of (Suc 0) = targets_of 0"
  then have "tFlare (targets_of 1) = tFlare (targets_of 0)" by simp
  with sin_11_10 show False by (simp only: tFlare_0 tFlare_1)
qed

lemma rerun_effect_fields:
  "queue (rerun_effect p)
     = filter (out_of_reach p) (queue p)
       @ [\<lparr>captured = targets_of (tick_state p), request = next_request p\<rparr>]"
  "cleanup_id (rerun_effect p) = Some (next_request p)"
  "next_request (rerun_effect p) = Suc (next_request p)"
  "shown (rerun_effect p) = shown p"
  "tick_state (rerun_effect p) = tick_state p"
proof -
  have f: "filter (\<lambda>l. request l \<noteq> i) (queue p) = filter (out_of_reach p) (queue p)"
    if "cleanup_id p = Some i" for i
    using that by (intro filter_cong) (auto simp: out_of_reach_def)
  have g: "filter (out_of_reach p) (queue p) = queue p" if "cleanup_id p = None"
    using that by (simp add: out_of_reach_def)
  show "queue (rerun_effect p)
     = filter (out_of_reach p) (queue p)
       @ [\<lparr>captured = targets_of (tick_state p), request = next_request p\<rparr>]"
    by (cases "cleanup_id p")
      (simp_all add: rerun_effect_def smoothing_effect_def smoothing_cleanup_def
        requestAnimationFrame_def cancelAnimationFrame_def f g)
  show "cleanup_id (rerun_effect p) = Some (next_request p)"
    "next_request (rerun_effect p) = Suc (next_request p)"
    "shown (rerun_effect p) = shown p"
    "tick_state (rerun_effect p) = tick_state p"
    by (simp_all add: rerun_effect_def smoothing_effect_def smoothing_cleanup_def
        requestAnimationFrame_def cancelAnimationFrame_def split: option.splits)
qed

lemma well_numbered_rerun: "well_numbered p \<Longrightarrow> well_numbered (rerun_effect p)"
  by (auto simp: well_numbered_def rerun_effect_fields less_Suc_eq)

lemma well_numbered_callback:
  "well_numbered p \<Longrightarrow> well_numbered (run_callback onF onR now l p)"
  by (auto simp: well_numbered_def run_callback_fields less_Suc_eq)

lemma well_numbered_fold:
  "well_numbered p \<Longrightarrow> well_numbered (fold (run_callback onF onR now) ls p)"
  by (induction ls arbitrary: p) (simp_all add: well_numbered_callback)

lemma well_numbered_frame:
  assumes "well_numbered p"
  shows "well_numbered (animation_frame onF onR now p)"
proof -
  from assms have "well_numbered (p\<lparr>queue := []\<rparr>)" by (simp add: well_numbered_def)
  then show ?thesis unfolding animation_frame_def by (rule well_numbered_fold)
qed

lemma well_numbered_mount: "well_numbered (mount_metrics l0)"
  by (simp add: well_numbered_def mount_metrics_def smoothing_effect_def requestAnimationFrame_def)

lemma fold_fixed: "\<forall>x \<in> set xs. f x d = d \<Longrightarrow> fold f xs d = d"
  by (induction xs) simp_all

lemma lerp_default_same: "lerp_default a a = a"
  by (simp add: lerp_default_def lerp_def)

lemma flare_frame:
  "flareRate (shown (animation_frame onF onR now p))
     = fold (\<lambda>tg d. lerp_default d (tFlare tg)) (map captured (queue p)) (flareRate (shown p))"
  using animation_frame_fields(5) [of Flare onF onR now p] by (simp add: fold_map comp_def)

lemma frame_before_tick:
  assumes wn: "well_numbered p" and t: "tick_state p = 0" and f: "flareRate (shown p) = 12"
    and c: "\<forall>l \<in> set (queue p). captured l = targets_of 0" and ne: "queue p \<noteq> []"
  shows "before_tick (animation_frame onF onR now p)"
proof -
  let ?p' = "animation_frame onF onR now p"
  have cap: "map captured (queue ?p') = map captured (queue p)"
    by (rule animation_frame_fields(1))
  have a: "well_numbered ?p'" by (rule well_numbered_frame [OF wn])
  have b: "tick_state ?p' = 0" by (simp only: animation_frame_fields t)
  have "fold (\<lambda>tg d. lerp_default d (tFlare tg)) (map captured (queue p)) 12 = 12"
    by (rule fold_fixed) (use c in \<open>auto simp: tFlare_0 lerp_default_same\<close>)
  then have d: "flareRate (shown ?p') = 12" by (simp only: flare_frame f)
  have e: "\<forall>l \<in> set (queue ?p'). captured l = targets_of 0"
  proof
    fix l assume "l \<in> set (queue ?p')"
    then have "captured l \<in> set (map captured (queue ?p'))" by simp
    then have "captured l \<in> captured ` set (queue p)" by (simp only: cap set_map)
    with c show "captured l = targets_of 0" by auto
  qed
  have "queue ?p' \<noteq> []" using cap ne by (metis map_is_Nil_conv)
  then obtain l where l: "l \<in> set (queue ?p')" by (cases "queue ?p'") auto
  then have "next_request p \<le> request l" using animation_frame_ids [of onF onR now p] by blast
  moreover have "\<forall>i. cleanup_id p = Some i \<longrightarrow> i < next_request p"
    using wn by (simp add: well_numbered_def)
  ultimately have "out_of_reach ?p' l"
    by (auto simp: out_of_reach_def animation_frame_fields)
  with l have g: "\<exists>l \<in> set (queue ?p'). out_of_reach ?p' l" by blast
  from a b d e g show ?thesis unfolding before_tick_def by (intro conjI)
qed

lemma before_tick_frame:
  assumes "before_tick p"
  shows "before_tick (animation_frame onF onR now p)"
proof (rule frame_before_tick)
  from assms show "well_numbered p" "tick_state p = 0" "flareRate (shown p) = 12"
    "\<forall>l \<in> set (queue p). captured l = targets_of 0"
    by (simp_all add: before_tick_def)
  from assms show "queue p \<noteq> []" by (auto simp: before_tick_def)
qed

lemma before_tick_mount: "before_tick (animation_frame onF onR now (mount_metrics l0))"
proof (rule frame_before_tick)
  show "well_numbered (mount_metrics l0)" by (rule well_numbered_mount)
qed (simp_all add: mount_metrics_def smoothing_effect_def requestAnimationFrame_def
      initial_portal_def Let_def tFlare_0)

lemma before_tick_parent:
  assumes "before_tick p"
  shows "before_tick (parent_render p)"
proof -
  from assms have wn: "well_numbered p" and t: "tick_state p = 0"
    and f: "flareRate (shown p) = 12"
    and c: "\<forall>l \<in> set (queue p). captured l = targets_of 0"
    by (simp_all add: before_tick_def)
  from assms obtain l where l: "l \<in> set (queue p)" and o: "out_of_reach p l"
    by (auto simp: before_tick_def)
  from wn l have lt: "request l < next_request p" by (simp add: well_numbered_def)
  have a: "well_numbered (rerun_effect p)" by (rule well_numbered_rerun [OF wn])
  have e: "\<forall>l \<in> set (queue (rerun_effect p)). captured l = targets_of 0"
    using c t by (auto simp: rerun_effect_fields)
  have "l \<in> set (queue (rerun_effect p))" using l o by (simp add: rerun_effect_fields)
  moreover have "out_of_reach (rerun_effect p) l"
    using lt by (simp add: out_of_reach_def rerun_effect_fields)
  ultimately have g: "\<exists>l \<in> set (queue (rerun_effect p)). out_of_reach (rerun_effect p) l"
    by blast
  have b: "tick_state (rerun_effect p) = 0" and d: "flareRate (shown (rerun_effect p)) = 12"
    by (simp_all only: rerun_effect_fields t f)
  from a b d e g show ?thesis unfolding before_tick_def parent_render_def by (intro conjI)
qed

lemma before_tick_events:
  "IntervalTick \<notin> set evs \<Longrightarrow> before_tick p \<Longrightarrow> before_tick (run_events onF onR evs p)"
proof (induction evs arbitrary: p)
  case Nil
  then show ?case by (simp add: run_events_def)
next
  case (Cons ev evs)
  from Cons.prems(1) have ev: "ev \<noteq> IntervalTick" and rest: "IntervalTick \<notin> set evs" by auto
  have "before_tick (handle onF onR ev p)"
    using ev Cons.prems(2) by (cases ev) (simp_all add: before_tick_frame before_tick_parent)
  from Cons.IH [OF rest this] show ?case by (simp add: run_events_def)
qed

lemma tFlare_1_above: "12 \<le> tFlare (targets_of 1)"
  using tFlare_bounds [of 1] by simp

lemma interval_tick_first:
  assumes "tick_state p = 0"
  shows "interval_tick p = rerun_effect (p\<lparr>tick_state := Suc 0\<rparr>)"
  using assms targets_change by (simp add: interval_tick_def Let_def)

lemma tick_during:
  assumes "before_tick p"
  shows "during_tick_one (interval_tick p)"
proof -
  let ?p1 = "p\<lparr>tick_state := Suc 0\<rparr>"
  from assms have t: "tick_state p = 0" and f: "flareRate (shown p) = 12"
    and c: "\<forall>l \<in> set (queue p). captured l = targets_of 0"
    by (simp_all add: before_tick_def)
  from assms obtain l where l: "l \<in> set (queue p)" and o: "out_of_reach p l"
    by (auto simp: before_tick_def)
  let ?kept = "filter (out_of_reach ?p1) (queue ?p1)"
  have "l \<in> set ?kept" using l o by (simp add: out_of_reach_def)
  then have "?kept \<noteq> []" by (auto simp: filter_empty_conv)
  then obtain k where k: "length ?kept = Suc k" by (cases ?kept) auto
  have "\<forall>x \<in> set (map captured ?kept). x = targets_of 0" using c by auto
  then have "map captured ?kept = replicate (length (map captured ?kept)) (targets_of 0)"
    by (simp only: replicate_length_same)
  then have kept: "map captured ?kept = replicate (Suc k) (targets_of 0)" using k by simp
  have q: "map captured (queue (interval_tick p)) = replicate (Suc k) (targets_of 0) @ [targets_of 1]"
    by (simp only: interval_tick_first [OF t] rerun_effect_fields map_append kept)
      simp
  have a: "tick_state (interval_tick p) = 1"
    by (simp add: interval_tick_first [OF t] rerun_effect_fields)
  have fl: "flareRate (shown (interval_tick p)) = 12"
    by (simp add: interval_tick_first [OF t] rerun_effect_fields f)
  have b: "22 / 47 * (tFlare (targets_of 1) - 12) \<le> tFlare (targets_of 1) - flareRate (shown (interval_tick p))"
    using tFlare_1_above by (simp only: fl) simp
  from q have e: "\<exists>k. map captured (queue (interval_tick p))
      = replicate (Suc k) (targets_of 0) @ [targets_of 1]" by blast
  from a e b show ?thesis unfolding during_tick_one_def by (intro conjI)
qed

lemma stale_lerps:
  fixes T d :: real
  assumes "12 \<le> T"
  shows "22 / 47 * (T - 12) \<le> T - d \<Longrightarrow>
     25 / 47 * (T - 12) \<le> T - fold (\<lambda>tg d. lerp_default d (tFlare tg)) (replicate (Suc k) (targets_of 0)) d"
proof (induction k arbitrary: d)
  case 0
  have "T - lerp_default d 12 = 22 / 25 * (T - d) + 3 / 25 * (T - 12)"
    by (simp add: lerp_default_def lerp_def field_simps)
  with 0 have "25 / 47 * (T - 12) \<le> T - lerp_default d 12" by (simp add: field_simps)
  then show ?case by (simp add: tFlare_0)
next
  case (Suc k)
  have "T - lerp_default d 12 = 22 / 25 * (T - d) + 3 / 25 * (T - 12)"
    by (simp add: lerp_default_def lerp_def field_simps)
  with Suc.prems assms have "22 / 47 * (T - 12) \<le> T - lerp_default d 12"
    by (simp add: field_simps)
  from Suc.IH [OF this] show ?case by (simp add: tFlare_0)
qed

lemma current_lerp:
  fixes T m :: real
  assumes "25 / 47 * (T - 12) \<le> T - m"
  shows "22 / 47 * (T - 12) \<le> T - lerp_default m T"
  using assms by (simp add: lerp_default_def lerp_def field_simps)

lemma during_frame:
  assumes "during_tick_one p"
  shows "during_tick_one (animation_frame onF onR now p)"
proof -
  let ?T = "tFlare (targets_of 1)"
  from assms obtain k where t: "tick_state p = 1"
    and q: "map captured (queue p) = replicate (Suc k) (targets_of 0) @ [targets_of 1]"
    and g: "22 / 47 * (?T - 12) \<le> ?T - flareRate (shown p)"
    by (auto simp: during_tick_one_def)
  let ?mid = "fold (\<lambda>tg d. lerp_default d (tFlare tg)) (replicate (Suc k) (targets_of 0))
      (flareRate (shown p))"
  have mid: "25 / 47 * (?T - 12) \<le> ?T - ?mid"
    by (rule stale_lerps [OF tFlare_1_above g])
  have fl: "flareRate (shown (animation_frame onF onR now p)) = lerp_default ?mid ?T"
    by (simp only: flare_frame q fold_append comp_apply fold_simps id_apply)
  have "22 / 47 * (?T - 12) \<le> ?T - lerp_default ?mid ?T"
    by (rule current_lerp [OF mid])
  then have b: "22 / 47 * (?T - 12) \<le> ?T - flareRate (shown (animation_frame onF onR now p))"
    by (simp only: fl)
  have a: "tick_state (animation_frame onF onR now p) = 1"
    by (simp only: animation_frame_fields t)
  have e: "\<exists>k. map captured (queue (animation_frame onF onR now p))
      = replicate (Suc k) (targets_of 0) @ [targets_of 1]"
    using q by (simp only: animation_frame_fields) blast
  from a e b show ?thesis unfolding during_tick_one_def by (intro conjI)
qed

lemma during_frames:
  "during_tick_one p \<Longrightarrow> during_tick_one (run_events onF onR (map AnimationFrame nows) p)"
proof (induction nows arbitrary: p)
  case Nil
  then show ?case by (simp add: run_events_def)
next
  case (Cons now nows)
  from Cons.IH [OF during_frame [OF Cons.prems, of onF onR now]]
  show ?case by (simp add: run_events_def)
qed

lemma run_events_append:
  "run_events onF onR (a @ b) p = run_events onF onR b (run_events onF onR a p)"
  by (simp add: run_events_def)

lemma first_tick_held_during:
  assumes "IntervalTick \<notin> set pre"
  shows "during_tick_one (first_tick_held onF onR l0 now0 pre nows)"
proof -
  have "before_tick (run_events onF onR pre (animation_frame onF onR now0 (mount_metrics l0)))"
    by (rule before_tick_events [OF assms before_tick_mount])
  then have "during_tick_one (interval_tick
      (run_events onF onR pre (animation_frame onF onR now0 (mount_metrics l0))))"
    by (rule tick_during)
  then have "during_tick_one (run_events onF onR (map AnimationFrame nows) (interval_tick
      (run_events onF onR pre (animation_frame onF onR now0 (mount_metrics l0)))))"
    by (rule during_frames)
  then show ?thesis
    by (simp add: first_tick_held_def run_events_def)
qed

subsection \<open>One stale loop: the value the flare rate settles at\<close>

lemma frames_captured:
  "map captured (queue (run_events onF onR (map AnimationFrame nows) p)) = map captured (queue p)"
proof (induction nows arbitrary: p)
  case Nil
  show ?case by (simp add: run_events_def)
next
  case (Cons now nows)
  from Cons.IH [of "animation_frame onF onR now p"]
  show ?case by (simp add: run_events_def animation_frame_fields)
qed

lemma mount_captured: "map captured (queue (mount_metrics l0)) = [targets_of 0]"
  by (simp add: mount_metrics_def smoothing_effect_def requestAnimationFrame_def)

lemma tick_pair:
  assumes b: "before_tick p" and q: "map captured (queue p) = [targets_of 0]"
  shows "map captured (queue (interval_tick p)) = [targets_of 0, targets_of 1]"
    and "flareRate (shown (interval_tick p)) = 12"
proof -
  from b have t: "tick_state p = 0" and f: "flareRate (shown p) = 12"
    by (simp_all add: before_tick_def)
  from q obtain l where l: "queue p = [l]" by (cases "queue p") auto
  with b have o: "out_of_reach p l" by (simp add: before_tick_def)
  then have "filter (out_of_reach (p\<lparr>tick_state := Suc 0\<rparr>)) (queue (p\<lparr>tick_state := Suc 0\<rparr>)) = [l]"
    by (simp add: l out_of_reach_def)
  then show "map captured (queue (interval_tick p)) = [targets_of 0, targets_of 1]"
    using q l by (simp add: interval_tick_first [OF t] rerun_effect_fields)
  show "flareRate (shown (interval_tick p)) = 12"
    by (simp add: interval_tick_first [OF t] rerun_effect_fields f)
qed

lemma pair_step:
  fixes T d :: real
  shows "lerp_default (lerp_default d 12) T - (12 + 25 / 47 * (T - 12))
    = (d - (12 + 25 / 47 * (T - 12))) * (484 / 625)"
  by (simp add: lerp_default_def lerp_def field_simps)

lemma pair_frames:
  assumes "map captured (queue p) = [targets_of 0, targets_of 1]"
  shows "flareRate (shown (run_events onF onR (map AnimationFrame nows) p))
           - (12 + 25 / 47 * (tFlare (targets_of 1) - 12))
         = (flareRate (shown p) - (12 + 25 / 47 * (tFlare (targets_of 1) - 12)))
             * (484 / 625) ^ length nows"
  using assms
proof (induction nows arbitrary: p)
  case Nil
  show ?case by (simp add: run_events_def)
next
  case (Cons now nows)
  let ?p' = "animation_frame onF onR now p"
  have q': "map captured (queue ?p') = [targets_of 0, targets_of 1]"
    by (simp only: animation_frame_fields Cons.prems)
  have fl: "flareRate (shown ?p') = lerp_default (lerp_default (flareRate (shown p)) 12) (tFlare (targets_of 1))"
    by (simp only: flare_frame Cons.prems fold_simps comp_apply id_apply tFlare_0)
  have "flareRate (shown (run_events onF onR (map AnimationFrame (now # nows)) p))
      = flareRate (shown (run_events onF onR (map AnimationFrame nows) ?p'))"
    by (simp add: run_events_def)
  then show ?case
    by (simp only: Cons.IH [OF q'] fl pair_step) simp
qed

lemma settle_value:
  "flareRate (shown (first_tick_held onF onR l0 now0 (map AnimationFrame pres) nows))
     = 12 + 25 / 47 * (tFlare (targets_of 1) - 12) * (1 - (484 / 625) ^ length nows)"
proof -
  let ?p = "run_events onF onR (map AnimationFrame pres)
      (animation_frame onF onR now0 (mount_metrics l0))"
  have b: "before_tick ?p"
    by (rule before_tick_events [OF _ before_tick_mount]) auto
  have q: "map captured (queue ?p) = [targets_of 0]"
    by (simp only: frames_captured animation_frame_fields mount_captured)
  have whole: "first_tick_held onF onR l0 now0 (map AnimationFrame pres) nows
      = run_events onF onR (map AnimationFrame nows) (interval_tick ?p)"
    by (simp add: first_tick_held_def run_events_def)
  from pair_frames [OF tick_pair(1) [OF b q], of onF onR nows]
  show ?thesis
    by (simp only: whole tick_pair(2) [OF b q]) (simp add: field_simps)
qed

lemma step_from_12: "12 / 5 < 22 / 47 * (tFlare (targets_of 1) - 12)"
  using sin_11_10 by (simp only: tFlare_1) (simp add: field_simps)

text \<open>
  Claim C7, evaluated on the code. Every run of \<open>smooth\<close> moves each displayed value by
  \<open>(target - displayed) * 0.12\<close>. But the cleanup of the effect cancels only the first
  request of a loop, so a loop whose first frame has run is never stopped. Take any history
  in which a frame runs before the first tick of the interval (renders of the parent and
  further frames may follow it), then the tick, then the frames \<open>nows\<close>, however many.
  During those frames the tick is 1 and the flare target is held at
  \<open>12 + 6 * sin 1.1\<close>, which is at most 18; the queue still holds a callback that
  captured the targets of tick 0, run before the current one in every frame; and the flare
  rate shown stays short of the target by at least 22/47 of the step from 12, which is more
  than 2.4. With frames only before the tick there is one stale loop, and after \<open>n\<close> frames
  the flare rate shown is \<open>12 + 25/47 * (target - 12) * (1 - 0.7744 ^ n)\<close>: it settles at
  25/47 of the way to the target.
\<close>

theorem stale_loops_block_convergence:
  assumes "IntervalTick \<notin> set pre"
  shows "displayed sg (fst (smooth tg onF onR now s))
           = displayed sg s + (target sg tg - displayed sg s) * 0.12
    \<and> tick_state (first_tick_held onF onR l0 now0 pre nows) = 1
    \<and> targets_of 0 \<in> set (map captured (queue (first_tick_held onF onR l0 now0 pre nows)))
    \<and> last (map captured (queue (first_tick_held onF onR l0 now0 pre nows))) = targets_of 1
    \<and> target Flare (targets_of 1) \<le> 18
    \<and> 12 / 5 < 22 / 47 * (target Flare (targets_of 1) - 12)
    \<and> 22 / 47 * (target Flare (targets_of 1) - 12)
         \<le> target Flare (targets_of 1)
             - displayed Flare (shown (first_tick_held onF onR l0 now0 pre nows))
    \<and> displayed Flare (shown (first_tick_held onF onR l0 now0 (map AnimationFrame pres) nows))
         = 12 + 25 / 47 * (target Flare (targets_of 1) - 12) * (1 - (484 / 625) ^ length nows)"
proof -
  let ?p = "first_tick_held onF onR l0 now0 pre nows"
  have d: "during_tick_one ?p" by (rule first_tick_held_during [OF assms])
  then obtain k where q: "map captured (queue ?p) = replicate (Suc k) (targets_of 0) @ [targets_of 1]"
    by (auto simp: during_tick_one_def)
  have one: "displayed sg (fst (smooth tg onF onR now s))
      = displayed sg s + (target sg tg - displayed sg s) * 0.12"
    by (simp add: displayed_smooth lerp_default_def lerp_def)
  have a: "tick_state ?p = 1" using d by (simp add: during_tick_one_def)
  have b: "targets_of 0 \<in> set (map captured (queue ?p))" by (simp only: q) simp
  have c: "last (map captured (queue ?p)) = targets_of 1" by (simp only: q last_snoc)
  have e: "target Flare (targets_of 1) \<le> 18" using tFlare_bounds [of 1] by simp
  have f: "12 / 5 < 22 / 47 * (target Flare (targets_of 1) - 12)"
    using step_from_12 by simp
  have g: "22 / 47 * (target Flare (targets_of 1) - 12)
      \<le> target Flare (targets_of 1) - displayed Flare (shown ?p)"
    using d by (simp add: during_tick_one_def)
  have h: "displayed Flare (shown (first_tick_held onF onR l0 now0 (map AnimationFrame pres) nows))
      = 12 + 25 / 47 * (target Flare (targets_of 1) - 12) * (1 - (484 / 625) ^ length nows)"
    using settle_value [of onF onR l0 now0 pres nows] by simp
  show ?thesis by (intro conjI one a b c e f g h)
qed

text \<open>
  The portal as it runs: the first frame notifies the parent, which renders; the tick
  comes after further frames; then fifty frames, 16 ms apart.
\<close>

theorem stale_loops_block_convergence_witness:
  "12 / 5 < target Flare (targets_of 1)
      - displayed Flare (shown (first_tick_held True True None 16
          [ParentRender, AnimationFrame 32, AnimationFrame 48]
          (map (\<lambda>i. 1516 + 16 * real i) [0 ..< 50])))
   \<and> tick_state (first_tick_held True True None 16
          [ParentRender, AnimationFrame 32, AnimationFrame 48]
          (map (\<lambda>i. 1516 + 16 * real i) [0 ..< 50])) = 1
   \<and> length (map (\<lambda>i. 1516 + 16 * real i) [0 ..< 50]) = 50"
proof -
  have pre: "IntervalTick \<notin> set [ParentRender, AnimationFrame 32, AnimationFrame 48]"
    by simp
  note th = stale_loops_block_convergence [OF pre, of Flare "targets_of 1" True True 1516
      "shown (mount_metrics None)" None 16 "map (\<lambda>i. 1516 + 16 * real i) [0 ..< 50]" "[]"]
  note rest = th [THEN conjunct2]
  have a: "tick_state (first_tick_held True True None 16
          [ParentRender, AnimationFrame 32, AnimationFrame 48]
          (map (\<lambda>i. 1516 + 16 * real i) [0 ..< 50])) = 1"
    by (rule rest [THEN conjunct1])
  note tail = rest [THEN conjunct2, THEN conjunct2, THEN conjunct2, THEN conjunct2]
  have b: "12 / 5 < target Flare (targets_of 1)
      - displayed Flare (shown (first_tick_held True True None 16
          [ParentRender, AnimationFrame 32, AnimationFrame 48]
          (map (\<lambda>i. 1516 + 16 * real i) [0 ..< 50])))"
    using tail [THEN conjunct1] tail [THEN conjunct2, THEN conjunct1] by (rule less_le_trans)
  have c: "length (map (\<lambda>i. 1516 + 16 * real i) [0 ..< 50]) = 50" by simp
  show ?thesis by (intro conjI b a c)
qed

section \<open>Properties of the frame loop\<close>

declare spawn_loop.simps [simp del]

subsection \<open>The update loop\<close>

lemma update_puff_at_puffs:
  "i < length (puffs s) \<Longrightarrow>
     puffs (update_puff_at i dt s)
       = take i (puffs s) @ survivors dt [puffs s ! i] @ drop (Suc i) (puffs s)"
  by (simp add: update_puff_at_def Let_def survivors_def expired_def aged_def upd_conv_take_nth_drop)

lemma update_puff_at_puffGroup:
  "puffGroup (update_puff_at i dt s)
     = puffGroup s - mesh ` {p \<in> set [puffs s ! i]. expired dt p}"
  by (auto simp: update_puff_at_def Let_def expired_def aged_def)

lemma update_puff_at_disposed:
  "disposed (update_puff_at i dt s)
     = disposed s \<union> mesh ` {p \<in> set [puffs s ! i]. expired dt p}"
  by (auto simp: update_puff_at_def Let_def expired_def aged_def)

lemma survivors_append: "survivors dt (a @ b) = survivors dt a @ survivors dt b"
  by (simp add: survivors_def)

lemma update_loop_puffs:
  "n \<le> length (puffs s) \<Longrightarrow>
     puffs (update_loop n dt s) = survivors dt (take n (puffs s)) @ drop n (puffs s)"
proof (induction n arbitrary: s)
  case 0
  show ?case by (simp add: survivors_def)
next
  case (Suc n)
  let ?s' = "update_puff_at n dt s"
  from Suc.prems have n: "n < length (puffs s)" by simp
  have ps': "puffs ?s' = take n (puffs s) @ survivors dt [puffs s ! n] @ drop (Suc n) (puffs s)"
    by (rule update_puff_at_puffs [OF n])
  have len: "n \<le> length (puffs ?s')" using n by (simp add: ps')
  have tk: "take n (puffs ?s') = take n (puffs s)" using n by (simp add: ps')
  have dr: "drop n (puffs ?s') = survivors dt [puffs s ! n] @ drop (Suc n) (puffs s)"
    using n by (simp add: ps')
  have "puffs (update_loop (Suc n) dt s) = puffs (update_loop n dt ?s')" by simp
  also have "\<dots> = survivors dt (take n (puffs ?s')) @ drop n (puffs ?s')"
    by (rule Suc.IH [OF len])
  also have "\<dots> = survivors dt (take n (puffs s)) @ survivors dt [puffs s ! n] @ drop (Suc n) (puffs s)"
    by (simp only: tk dr)
  also have "\<dots> = survivors dt (take (Suc n) (puffs s)) @ drop (Suc n) (puffs s)"
    using n by (simp add: take_Suc_conv_app_nth survivors_append)
  finally show ?case .
qed

lemma update_loop_sets:
  "n \<le> length (puffs s) \<Longrightarrow>
     puffGroup (update_loop n dt s) = puffGroup s - mesh ` {p \<in> set (take n (puffs s)). expired dt p}
     \<and> disposed (update_loop n dt s) = disposed s \<union> mesh ` {p \<in> set (take n (puffs s)). expired dt p}"
proof (induction n arbitrary: s)
  case 0
  show ?case by simp
next
  case (Suc n)
  let ?s' = "update_puff_at n dt s"
  from Suc.prems have n: "n < length (puffs s)" by simp
  have ps': "puffs ?s' = take n (puffs s) @ survivors dt [puffs s ! n] @ drop (Suc n) (puffs s)"
    by (rule update_puff_at_puffs [OF n])
  have len: "n \<le> length (puffs ?s')" using n by (simp add: ps')
  have tk: "take n (puffs ?s') = take n (puffs s)" using n by (simp add: ps')
  have split: "set (take (Suc n) (puffs s)) = set (take n (puffs s)) \<union> {puffs s ! n}"
    using n by (simp add: take_Suc_conv_app_nth)
  from Suc.IH [OF len] show ?case
    unfolding update_loop.simps tk update_puff_at_puffGroup update_puff_at_disposed split
    by auto
qed

lemma update_loop_frame:
  "lastT (update_loop n dt s) = lastT s
   \<and> fanDisc_rotation_y (update_loop n dt s) = fanDisc_rotation_y s
   \<and> coolerFan_rotation_y (update_loop n dt s) = coolerFan_rotation_y s
   \<and> puffSpawnAccum (update_loop n dt s) = puffSpawnAccum s
   \<and> next_mesh (update_loop n dt s) = next_mesh s
   \<and> rng (update_loop n dt s) = rng s"
  by (induction n arbitrary: s) (simp_all add: update_puff_at_def Let_def)

lemma update_puffs_puffs: "puffs (update_puffs dt s) = survivors dt (puffs s)"
  by (simp add: update_puffs_def update_loop_puffs)

lemma update_puffs_sets:
  "puffGroup (update_puffs dt s) = puffGroup s - mesh ` {p \<in> set (puffs s). expired dt p}"
  "disposed (update_puffs dt s) = disposed s \<union> mesh ` {p \<in> set (puffs s). expired dt p}"
  using update_loop_sets [of "length (puffs s)" s dt] by (simp_all add: update_puffs_def)

lemma move_puff_fields [simp]:
  "life (move_puff dt p) = life p" "maxLife (move_puff dt p) = maxLife p"
  "mesh (move_puff dt p) = mesh p"
  by (simp_all add: move_puff_def Let_def split_beta)

lemma aged_fields [simp]:
  "life (aged dt p) = life p + dt" "maxLife (aged dt p) = maxLife p" "mesh (aged dt p) = mesh p"
  by (simp_all add: aged_def)

lemma not_expired_young:
  "\<not> expired dt p \<Longrightarrow> 0 < maxLife p \<and> life p + dt < maxLife p"
  by (auto simp: expired_def lifeFraction_def split: if_splits)

lemma expired_iff: "expired dt p \<longleftrightarrow> maxLife p \<le> 0 \<or> maxLife p \<le> life p + dt"
  by (auto simp: expired_def lifeFraction_def)

lemma survivors_young:
  "q \<in> set (survivors dt ps) \<Longrightarrow> 0 < maxLife q \<and> life q < maxLife q"
  by (auto simp: survivors_def dest: not_expired_young)

lemma survivors_mesh: "mesh ` set (survivors dt ps) \<subseteq> mesh ` set ps"
  by (auto simp: survivors_def)

lemma length_survivors: "length (survivors dt ps) \<le> length ps"
  by (simp add: survivors_def)

subsection \<open>Spawning\<close>

lemma spawnPuff_full: "MAX_ACTIVE_PUFFS \<le> length (puffs s) \<Longrightarrow> spawnPuff rnd e s = s"
  by (simp add: spawnPuff_def)

lemma spawnPuff_length:
  "length (puffs s) \<le> MAX_ACTIVE_PUFFS \<Longrightarrow>
     length (puffs (spawnPuff rnd e s)) = min MAX_ACTIVE_PUFFS (Suc (length (puffs s)))"
  by (simp add: spawnPuff_def Let_def)

lemma spawnPuff_frame:
  "lastT (spawnPuff rnd e s) = lastT s
   \<and> fanDisc_rotation_y (spawnPuff rnd e s) = fanDisc_rotation_y s
   \<and> coolerFan_rotation_y (spawnPuff rnd e s) = coolerFan_rotation_y s
   \<and> disposed (spawnPuff rnd e s) = disposed s
   \<and> puffSpawnAccum (spawnPuff rnd e s) = puffSpawnAccum s
   \<and> set (puffs s) \<subseteq> set (puffs (spawnPuff rnd e s))"
  by (auto simp: spawnPuff_def Let_def)

lemma spawn_count_step:
  "1 < c \<Longrightarrow> min M (min M (Suc L) + nat (c - 1 - 1)) = min M (L + nat (c - 1))" for c :: int
  by (cases "c - 1") (auto simp: min_def nat_diff_distrib)

lemma spawn_loop_length:
  "length (puffs s) \<le> MAX_ACTIVE_PUFFS \<Longrightarrow>
     length (puffs (spawn_loop rnd e s))
       = min MAX_ACTIVE_PUFFS (length (puffs s) + nat (\<lceil>puffSpawnAccum s\<rceil> - 1))"
proof (induction rnd e s rule: spawn_loop.induct)
  case (1 rnd excess s)
  show ?case
  proof (cases "1 < puffSpawnAccum s")
    case False
    then have "\<lceil>puffSpawnAccum s\<rceil> \<le> 1" by (simp add: ceiling_le_iff)
    with False show ?thesis
      using "1.prems" by (subst spawn_loop.simps) simp
  next
    case True
    let ?s' = "(spawnPuff rnd excess s)\<lparr>puffSpawnAccum := puffSpawnAccum s - 1\<rparr>"
    have c: "1 < \<lceil>puffSpawnAccum s\<rceil>" using True by (simp add: less_ceiling_iff)
    have len': "length (puffs ?s') = min MAX_ACTIVE_PUFFS (Suc (length (puffs s)))"
      using spawnPuff_length [OF "1.prems"] by simp
    then have le': "length (puffs ?s') \<le> MAX_ACTIVE_PUFFS" by simp
    have "length (puffs (spawn_loop rnd excess s)) = length (puffs (spawn_loop rnd excess ?s'))"
      using True by (subst spawn_loop.simps) simp
    also have "\<dots> = min MAX_ACTIVE_PUFFS (length (puffs ?s') + nat (\<lceil>puffSpawnAccum ?s'\<rceil> - 1))"
      by (rule "1.IH" [OF True le'])
    also have "\<dots> = min MAX_ACTIVE_PUFFS
        (min MAX_ACTIVE_PUFFS (Suc (length (puffs s))) + nat (\<lceil>puffSpawnAccum s\<rceil> - 1 - 1))"
      by (simp only: len') simp
    also have "\<dots> = min MAX_ACTIVE_PUFFS (length (puffs s) + nat (\<lceil>puffSpawnAccum s\<rceil> - 1))"
      by (rule spawn_count_step [OF c])
    finally show ?thesis .
  qed
qed

lemma spawn_loop_accum: "puffSpawnAccum (spawn_loop rnd e s) \<le> 1"
proof (induction rnd e s rule: spawn_loop.induct)
  case (1 rnd excess s)
  show ?case
  proof (cases "1 < puffSpawnAccum s")
    case True
    with "1.IH" show ?thesis by (subst spawn_loop.simps) simp
  next
    case False
    then show ?thesis by (subst spawn_loop.simps) simp
  qed
qed

lemma spawn_loop_frame:
  "lastT (spawn_loop rnd e s) = lastT s
   \<and> fanDisc_rotation_y (spawn_loop rnd e s) = fanDisc_rotation_y s
   \<and> coolerFan_rotation_y (spawn_loop rnd e s) = coolerFan_rotation_y s
   \<and> disposed (spawn_loop rnd e s) = disposed s
   \<and> set (puffs s) \<subseteq> set (puffs (spawn_loop rnd e s))"
proof (induction rnd e s rule: spawn_loop.induct)
  case (1 rnd excess s)
  show ?case
  proof (cases "1 < puffSpawnAccum s")
    case True
    with "1.IH" spawnPuff_frame [of rnd excess s] show ?thesis
      by (subst (1 2 3 4 5) spawn_loop.simps) auto
  next
    case False
    then show ?thesis by (subst (1 2 3 4 5) spawn_loop.simps) simp
  qed
qed

lemma emit_frame:
  "lastT (emit rnd dt r s) = lastT s
   \<and> fanDisc_rotation_y (emit rnd dt r s) = fanDisc_rotation_y s
   \<and> coolerFan_rotation_y (emit rnd dt r s) = coolerFan_rotation_y s
   \<and> disposed (emit rnd dt r s) = disposed s
   \<and> set (puffs s) \<subseteq> set (puffs (emit rnd dt r s))"
  using spawn_loop_frame [of rnd "r - FLARE_PUFF_THRESHOLD"
      "s\<lparr>puffSpawnAccum := puffSpawnAccum s + dt * (2 + (r - FLARE_PUFF_THRESHOLD) * 0.35)\<rparr>"]
  by (simp add: emit_def Let_def)

lemma emit_length:
  "length (puffs s) \<le> MAX_ACTIVE_PUFFS \<Longrightarrow> length (puffs (emit rnd dt r s)) \<le> MAX_ACTIVE_PUFFS"
  by (simp add: emit_def Let_def spawn_loop_length)

lemma animate_unfold:
  "animate rnd t r rv s =
     update_puffs (t - lastT s)
       (emit rnd (t - lastT s) r
          (s\<lparr> lastT := t,
               fanDisc_rotation_y := fanDisc_rotation_y s + (t - lastT s) * fan_speed rv,
               coolerFan_rotation_y :=
                 map_option (\<lambda>ry. ry + (t - lastT s) * cooler_spin rv) (coolerFan_rotation_y s) \<rparr>))"
  by (simp add: animate_def Let_def)

lemma animate_length:
  "length (puffs s) \<le> MAX_ACTIVE_PUFFS \<Longrightarrow> length (puffs (animate rnd t r rv s)) \<le> MAX_ACTIVE_PUFFS"
proof -
  assume a: "length (puffs s) \<le> MAX_ACTIVE_PUFFS"
  let ?s3 = "s\<lparr> lastT := t,
               fanDisc_rotation_y := fanDisc_rotation_y s + (t - lastT s) * fan_speed rv,
               coolerFan_rotation_y :=
                 map_option (\<lambda>ry. ry + (t - lastT s) * cooler_spin rv) (coolerFan_rotation_y s) \<rparr>"
  have "length (puffs ?s3) \<le> MAX_ACTIVE_PUFFS" using a by simp
  from emit_length [OF this] have "length (puffs (emit rnd (t - lastT s) r ?s3)) \<le> MAX_ACTIVE_PUFFS" .
  moreover have "length (puffs (animate rnd t r rv s)) \<le> length (puffs (emit rnd (t - lastT s) r ?s3))"
    by (simp only: animate_unfold update_puffs_puffs length_survivors)
  ultimately show ?thesis by linarith
qed

lemma run_frames_length:
  "length (puffs s) \<le> MAX_ACTIVE_PUFFS \<Longrightarrow> length (puffs (run_frames rnd fs s)) \<le> MAX_ACTIVE_PUFFS"
proof (induction fs arbitrary: s)
  case Nil
  then show ?case by simp
next
  case (Cons f fs)
  obtain t r rv where f: "f = (t, r, rv)" by (cases f)
  from Cons.IH [OF animate_length [OF Cons.prems]] show ?case by (simp add: f)
qed

lemma animate_no_spawn:
  "r \<le> FLARE_PUFF_THRESHOLD \<Longrightarrow>
     next_mesh (animate rnd t r rv s) = next_mesh s
     \<and> rng (animate rnd t r rv s) = rng s
     \<and> puffSpawnAccum (animate rnd t r rv s) = puffSpawnAccum s
     \<and> mesh ` set (puffs (animate rnd t r rv s)) \<subseteq> mesh ` set (puffs s)"
proof -
  assume r: "r \<le> FLARE_PUFF_THRESHOLD"
  have e: "emit rnd dt r s' = s'" for dt s'
    using r by (simp add: emit_def)
  have a: "animate rnd t r rv s = update_puffs (t - lastT s)
       (s\<lparr> lastT := t,
               fanDisc_rotation_y := fanDisc_rotation_y s + (t - lastT s) * fan_speed rv,
               coolerFan_rotation_y :=
                 map_option (\<lambda>ry. ry + (t - lastT s) * cooler_spin rv) (coolerFan_rotation_y s) \<rparr>)"
    by (simp only: animate_unfold e)
  show ?thesis
    unfolding a using survivors_mesh
    by (simp add: update_puffs_puffs) (simp add: update_puffs_def update_loop_frame)
qed

lemma run_frames_no_spawn:
  "\<forall>(t, r, rv) \<in> set fs. r \<le> FLARE_PUFF_THRESHOLD \<Longrightarrow>
     next_mesh (run_frames rnd fs s) = next_mesh s
     \<and> mesh ` set (puffs (run_frames rnd fs s)) \<subseteq> mesh ` set (puffs s)"
proof (induction fs arbitrary: s)
  case Nil
  show ?case by simp
next
  case (Cons f fs)
  obtain t r rv where f: "f = (t, r, rv)" by (cases f)
  from Cons.prems f have r: "r \<le> FLARE_PUFF_THRESHOLD"
    and rest: "\<forall>(t, r, rv) \<in> set fs. r \<le> FLARE_PUFF_THRESHOLD" by auto
  from Cons.IH [OF rest, of "animate rnd t r rv s"] animate_no_spawn [OF r, of rnd t rv s]
  show ?case unfolding f run_frames.simps by auto
qed

lemma spawn_loop_full:
  "length (puffs s) = MAX_ACTIVE_PUFFS \<Longrightarrow> puffs (spawn_loop rnd e s) = puffs s"
proof (induction rnd e s rule: spawn_loop.induct)
  case (1 rnd excess s)
  show ?case
  proof (cases "1 < puffSpawnAccum s")
    case True
    let ?s' = "(spawnPuff rnd excess s)\<lparr>puffSpawnAccum := puffSpawnAccum s - 1\<rparr>"
    have same: "puffs ?s' = puffs s"
      using "1.prems" by (simp add: spawnPuff_full)
    then have "length (puffs ?s') = MAX_ACTIVE_PUFFS" using "1.prems" by simp
    from "1.IH" [OF True this] same True show ?thesis
      by (subst spawn_loop.simps) simp
  next
    case False
    then show ?thesis by (subst spawn_loop.simps) simp
  qed
qed

lemma spawn_three:
  "length (puffs (animate rnd_half 1 19 6 initial_dashboard)) = 3"
  by (simp add: animate_unfold update_puffs_puffs emit_def Let_def spawn_loop.simps spawnPuff_def
      survivors_def expired_iff rnd_half_def initial_dashboard_def FLARE_PUFF_THRESHOLD_def
      MAX_ACTIVE_PUFFS_def)

text \<open>
  Claim C4. The emission block does nothing unless the live flare rate is above the
  threshold, and then it adds \<open>dt * (2 + 0.35 * (rate - threshold))\<close> to the accumulator
  before the spawn loop runs: the spawn rate is an affine function of the excess. Over any
  run of frames whose rate never exceeds the threshold (so also one held exactly at it) no
  mesh is created and the pool gains no puff. The spawn loop adds one puff per whole unit
  of the accumulator, up to the cap of 40; from a pool within the cap, and from the initial
  state, every run of frames keeps the pool within the cap. At capacity \<open>spawnPuff\<close>
  changes nothing, and the loop still consumes the accumulator down to at most 1, so a
  request made at capacity is dropped, not kept for later.
\<close>

theorem puff_emission_gated_and_capped:
  "emit rnd dt currentRate s =
     (if FLARE_PUFF_THRESHOLD < currentRate
      then spawn_loop rnd (currentRate - FLARE_PUFF_THRESHOLD)
             (s\<lparr>puffSpawnAccum :=
                  puffSpawnAccum s + dt * (2 + (currentRate - FLARE_PUFF_THRESHOLD) * 0.35)\<rparr>)
      else s)
   \<and> ((\<forall>(t, r, rv) \<in> set fs. r \<le> FLARE_PUFF_THRESHOLD) \<longrightarrow>
        next_mesh (run_frames rnd fs s) = next_mesh s
        \<and> mesh ` set (puffs (run_frames rnd fs s)) \<subseteq> mesh ` set (puffs s))
   \<and> (length (puffs s) \<le> MAX_ACTIVE_PUFFS \<longrightarrow>
        length (puffs (spawn_loop rnd e s))
          = min MAX_ACTIVE_PUFFS (length (puffs s) + nat (\<lceil>puffSpawnAccum s\<rceil> - 1))
        \<and> length (puffs (run_frames rnd gs s)) \<le> MAX_ACTIVE_PUFFS)
   \<and> length (puffs (run_frames rnd gs initial_dashboard)) \<le> MAX_ACTIVE_PUFFS
   \<and> (length (puffs sf) = MAX_ACTIVE_PUFFS \<longrightarrow>
        spawnPuff rnd e sf = sf \<and> puffs (spawn_loop rnd e sf) = puffs sf)
   \<and> puffSpawnAccum (spawn_loop rnd e s) \<le> 1"
proof -
  have a: "emit rnd dt currentRate s =
     (if FLARE_PUFF_THRESHOLD < currentRate
      then spawn_loop rnd (currentRate - FLARE_PUFF_THRESHOLD)
             (s\<lparr>puffSpawnAccum :=
                  puffSpawnAccum s + dt * (2 + (currentRate - FLARE_PUFF_THRESHOLD) * 0.35)\<rparr>)
      else s)"
    by (simp add: emit_def Let_def)
  have i: "length (puffs (run_frames rnd gs initial_dashboard)) \<le> MAX_ACTIVE_PUFFS"
    by (rule run_frames_length) (simp add: initial_dashboard_def)
  from a i run_frames_no_spawn [of fs rnd s] spawn_loop_length [of s rnd e]
    run_frames_length [of s rnd gs] spawnPuff_full [of sf rnd e] spawn_loop_full [of sf rnd e]
    spawn_loop_accum [of rnd e s]
  show ?thesis by simp
qed

text \<open>
  Two frames at the threshold spawn nothing; one frame of one second at threshold + 5 from
  the initial state spawns three puffs; a full pool stays as it is.
\<close>

theorem puff_emission_gated_and_capped_witness:
  "next_mesh (run_frames rnd_half [(1, 14, 6), (2, 14, 6)] initial_dashboard)
     = next_mesh initial_dashboard
   \<and> length (puffs initial_dashboard) \<le> MAX_ACTIVE_PUFFS
   \<and> length (puffs (run_frames rnd_half [(1, 19, 6)] initial_dashboard)) = 3
   \<and> length (puffs (run_frames rnd_half [(1, 19, 6)] initial_dashboard)) \<le> MAX_ACTIVE_PUFFS
   \<and> length (puffs full_dashboard) = MAX_ACTIVE_PUFFS
   \<and> spawnPuff rnd_half 5 full_dashboard = full_dashboard
   \<and> puffs (spawn_loop rnd_half 5 full_dashboard) = puffs full_dashboard"
proof -
  have h1: "\<forall>(t, r, rv) \<in> set [(1, 14, 6), (2, 14, 6 :: real)]. r \<le> FLARE_PUFF_THRESHOLD"
    by (simp add: FLARE_PUFF_THRESHOLD_def)
  have h2: "length (puffs initial_dashboard) \<le> MAX_ACTIVE_PUFFS"
    by (simp add: initial_dashboard_def)
  have three: "length (puffs (run_frames rnd_half [(1, 19, 6)] initial_dashboard)) = 3"
    using spawn_three by simp
  have h3: "length (puffs full_dashboard) = MAX_ACTIVE_PUFFS"
    by (simp add: full_dashboard_def MAX_ACTIVE_PUFFS_def)
  from puff_emission_gated_and_capped [of rnd_half 1 19 initial_dashboard
      "[(1, 14, 6), (2, 14, 6)]" 5 "[(1, 19, 6)]" full_dashboard] h1 h2 h3 three
  show ?thesis by blast
qed

text \<open>
  Claim C8. The update loop keeps exactly the puffs that have not expired, moved; so after
  every frame each puff in the pool has an age strictly below its \<open>maxLife\<close>, whatever the
  flare rate and the frame delta. A puff of the pool at the start of a frame whose age
  reaches its \<open>maxLife\<close> in that frame is detached from the puff group and its material is
  disposed in that same frame. The bound holds after any non-empty run of frames.
\<close>

theorem puff_lifetime_bound:
  "puffs (update_puffs dt s) = survivors dt (puffs s)
   \<and> (\<forall>q \<in> set (puffs (animate rnd t currentRate rv s)). 0 < maxLife q \<and> life q < maxLife q)
   \<and> (\<forall>p \<in> set (puffs s). maxLife p \<le> life p + (t - lastT s) \<longrightarrow>
        mesh p \<notin> puffGroup (animate rnd t currentRate rv s)
        \<and> mesh p \<in> disposed (animate rnd t currentRate rv s))
   \<and> (fs \<noteq> [] \<longrightarrow>
        (\<forall>q \<in> set (puffs (run_frames rnd fs s)). 0 < maxLife q \<and> life q < maxLife q))"
proof -
  let ?dt = "t - lastT s"
  let ?s3 = "s\<lparr> lastT := t,
               fanDisc_rotation_y := fanDisc_rotation_y s + ?dt * fan_speed rv,
               coolerFan_rotation_y :=
                 map_option (\<lambda>ry. ry + ?dt * cooler_spin rv) (coolerFan_rotation_y s) \<rparr>"
  let ?s4 = "emit rnd ?dt currentRate ?s3"
  have an: "animate rnd t currentRate rv s = update_puffs ?dt ?s4"
    by (rule animate_unfold)
  have young: "\<forall>q \<in> set (puffs (animate rnd' t' r' rv' s')). 0 < maxLife q \<and> life q < maxLife q"
    for rnd' t' r' rv' s'
    by (simp only: animate_unfold update_puffs_puffs) (blast dest: survivors_young)
  have removed: "mesh p \<notin> puffGroup (animate rnd t currentRate rv s)
        \<and> mesh p \<in> disposed (animate rnd t currentRate rv s)"
    if p: "p \<in> set (puffs s)" and old: "maxLife p \<le> life p + ?dt" for p
  proof -
    have "set (puffs ?s3) \<subseteq> set (puffs ?s4)"
      using emit_frame [of rnd ?dt currentRate ?s3] by blast
    with p have "p \<in> set (puffs ?s4)" by auto
    moreover from old have "expired ?dt p" by (simp add: expired_iff)
    ultimately have "mesh p \<in> mesh ` {p \<in> set (puffs ?s4). expired ?dt p}" by blast
    then show ?thesis by (simp only: an update_puffs_sets) blast
  qed
  have run: "\<forall>q \<in> set (puffs (run_frames rnd fs s')). 0 < maxLife q \<and> life q < maxLife q"
    if "fs \<noteq> []" for s'
    using that
  proof (induction fs arbitrary: s')
    case Nil
    then show ?case by simp
  next
    case (Cons f fs)
    obtain t' r' rv' where f: "f = (t', r', rv')" by (cases f)
    show ?case
    proof (cases "fs = []")
      case True
      then show ?thesis using young [of rnd t' r' rv' s'] by (simp add: f)
    next
      case False
      from Cons.IH [OF False] show ?thesis by (simp add: f)
    qed
  qed
  from update_puffs_puffs [of dt s] young [of rnd t currentRate rv s] removed run [of s]
  show ?thesis by blast
qed

text \<open>A puff of age 1 and lifetime 1.2 meets a frame delta of one half.\<close>

theorem puff_lifetime_bound_witness:
  "old_puff \<in> set (puffs one_puff_dashboard)
   \<and> maxLife old_puff \<le> life old_puff + (1 / 2 - lastT one_puff_dashboard)
   \<and> mesh old_puff \<notin> puffGroup (animate rnd_half (1 / 2) 0 0 one_puff_dashboard)
   \<and> mesh old_puff \<in> disposed (animate rnd_half (1 / 2) 0 0 one_puff_dashboard)
   \<and> puffs (animate rnd_half (1 / 2) 0 0 one_puff_dashboard) = []
   \<and> [(1 / 2, 0, 0 :: real)] \<noteq> []
   \<and> puffs (run_frames rnd_half [(1 / 2, 0, 0)] one_puff_dashboard) = []"
proof -
  have h1: "old_puff \<in> set (puffs one_puff_dashboard)"
    by (simp add: one_puff_dashboard_def)
  have h2: "maxLife old_puff \<le> life old_puff + (1 / 2 - lastT one_puff_dashboard)"
    by (simp add: one_puff_dashboard_def old_puff_def initial_dashboard_def)
  have ev: "puffs (animate rnd_half (1 / 2) 0 0 one_puff_dashboard) = []"
    by (simp add: animate_unfold update_puffs_puffs emit_def FLARE_PUFF_THRESHOLD_def
        one_puff_dashboard_def initial_dashboard_def survivors_def expired_iff old_puff_def)
  have h3: "[(1 / 2, 0, 0 :: real)] \<noteq> []" by simp
  from puff_lifetime_bound [of "1 / 2" one_puff_dashboard rnd_half "1 / 2" 0 0 "[(1 / 2, 0, 0)]"]
    h1 h2 h3 ev
  show ?thesis by simp
qed

subsection \<open>Rotating equipment\<close>





section \<open>Properties of the selection highlight\<close>

subsection \<open>Colours\<close>

lemma byte_of_channel: "byte_of (channel n) = n mod 256"
proof -
  have "channel n * 255 = real (n mod 256)" by (simp add: channel_def)
  moreover have "real (n mod 256) \<le> 255"
  proof -
    have "n mod 256 < 256" by simp
    then have "n mod 256 \<le> 255" by linarith
    then show ?thesis by (metis of_nat_le_iff of_nat_numeral)
  qed
  ultimately have "max 0 (min 255 (channel n * 255)) = real (n mod 256)" by simp
  then show ?thesis by (simp add: byte_of_def)
qed

lemma hex_bytes:
  assumes "hex < 16777216"
  shows "(hex div 65536) mod 256 * 65536 + (hex div 256) mod 256 * 256 + hex mod 256 = (hex::nat)"
proof -
  define w where "w = hex div 256"
  define hi where "hi = w div 256"
  have top: "hex div 65536 = hi"
    unfolding hi_def w_def by (simp add: div_mult2_eq)
  have "hex div 65536 < 256"
    using assms by (intro less_mult_imp_div_less) simp
  then have small: "hi mod 256 = hi"
    by (simp add: top)
  have e1: "hex = w * 256 + hex mod 256"
    unfolding w_def by simp
  have e2: "w = hi * 256 + w mod 256"
    unfolding hi_def by simp
  have "hi * 65536 + w mod 256 * 256 + hex mod 256 = hex"
    using e1 e2 by linarith
  then show ?thesis
    by (simp only: top small w_def [symmetric])
qed

lemma getHex_setHex: "hex < 16777216 \<Longrightarrow> Color_getHex (Color_setHex hex) = hex"
  by (simp only: Color_getHex_def Color_setHex_def byte_of_channel prod.case hex_bytes)

subsection \<open>Applying a function to the materials of a list\<close>

lemma apply_each_Nil [simp]: "apply_each f [] st = st"
  by (simp add: apply_each_def)

lemma apply_each_append: "apply_each f (a @ b) st = apply_each f b (apply_each f a st)"
  by (simp add: apply_each_def)

lemma apply_each_at:
  assumes idem: "\<And>m. f (f m) = f m"
  shows "apply_each f ids st i = (if i \<in> set ids then f (st i) else st i)"
proof (induction ids arbitrary: st)
  case Nil
  show ?case by simp
next
  case (Cons j ids)
  have "apply_each f (j # ids) st = apply_each f ids (st(j := f (st j)))"
    by (simp add: apply_each_def)
  then show ?case by (simp add: Cons.IH idem)
qed

lemma fold_apply_each:
  "fold (\<lambda>x. apply_each f (g x)) xs st = apply_each f (concat (map g xs)) st"
  by (induction xs arbitrary: st) (simp_all add: apply_each_append)

subsection \<open>Both effects reset every registered material, then highlight the target\<close>

lemma td_visit_mats: "td_visit f = (\<lambda>n. apply_each f (td_node_mats n))"
proof (rule ext)
  fix n
  show "td_visit f n = apply_each f (td_node_mats n)"
    by (cases n) (simp_all add: fun_eq_iff)
qed

lemma as_visit_mats: "as_visit f = (\<lambda>n. apply_each f (as_node_mats n))"
proof (rule ext)
  fix n
  show "as_visit f n = apply_each f (as_node_mats n)"
    by (cases n) (simp_all add: fun_eq_iff)
qed

lemma td_traverse: "traverse (td_visit f) obj st = apply_each f (concat (map td_node_mats (nodes obj))) st"
  by (simp only: traverse_def td_visit_mats fold_apply_each)

lemma as_traverse: "traverse (as_visit f) obj st = apply_each f (concat (map as_node_mats (nodes obj))) st"
  by (simp only: traverse_def as_visit_mats fold_apply_each)

lemma td_fold_objs:
  "fold (traverse (td_visit f)) objs st = apply_each f (snd (td_entry (k, objs))) st"
proof -
  have "traverse (td_visit f) = (\<lambda>obj. apply_each f (concat (map td_node_mats (nodes obj))))"
    by (rule ext, rule ext) (rule td_traverse)
  then show ?thesis by (simp only: td_entry_def fold_apply_each snd_conv)
qed

lemma td_fold_sets:
  "fold (\<lambda>(k, objs). fold (traverse (td_visit f)) objs) sets st
     = apply_each f (concat (map snd (map td_entry sets))) st"
proof -
  have "(\<lambda>(k, objs). fold (traverse (td_visit f)) objs) = (\<lambda>e. apply_each f (snd (td_entry e)))"
  proof (rule ext, rule ext)
    fix e :: "string \<times> object3d list" and st' :: store
    obtain k objs where e: "e = (k, objs)" by (cases e)
    show "(case e of (k, objs) \<Rightarrow> fold (traverse (td_visit f)) objs) st' = apply_each f (snd (td_entry e)) st'"
      unfolding e by (simp only: prod.case td_fold_objs [of f objs st' k])
  qed
  then show ?thesis by (simp only: fold_apply_each map_map comp_def)
qed

lemma as_fold_parts:
  "fold (\<lambda>p. traverse (as_visit f) (group p)) parts st
     = apply_each f (concat (map snd (map as_entry parts))) st"
proof -
  have "(\<lambda>p. traverse (as_visit f) (group p)) = (\<lambda>p. apply_each f (snd (as_entry p)))"
    by (rule ext, rule ext) (simp only: as_traverse as_entry_def snd_conv)
  then show ?thesis by (simp only: fold_apply_each map_map comp_def)
qed

lemma find_map_entry:
  "(\<And>x. P (g x) = Q x) \<Longrightarrow> find P (map g xs) = map_option g (find Q xs)"
  by (induction xs) simp_all

lemma td_find:
  "find (\<lambda>e. Some (fst e) = focus) (map td_entry sets)
      = map_option td_entry (find (\<lambda>(k, objs). Some k = focus) sets)"
  by (rule find_map_entry) (simp add: td_entry_def split_beta)

lemma as_find:
  "find (\<lambda>e. Some (fst e) = focus) (map as_entry parts)
      = map_option as_entry (find (\<lambda>p. Some (key p) = focus) parts)"
  by (rule find_map_entry) (simp add: as_entry_def)

lemma td_focus_effect_gen:
  "td_focus_effect focus sets st
     = gen_focus td_reset_material td_highlight_material focus (map td_entry sets) st"
proof (cases "sets = []")
  case True
  then show ?thesis by (simp add: td_focus_effect_def gen_focus_def focus_target_def)
next
  case False
  let ?st1 = "apply_each td_reset_material (concat (map snd (map td_entry sets))) st"
  show ?thesis
  proof (cases "truthy focus")
    case f: False
    with False show ?thesis
      by (simp add: td_focus_effect_def gen_focus_def focus_target_def Let_def td_fold_sets)
  next
    case t: True
    show ?thesis
    proof (cases "find (\<lambda>(k, objs). Some k = focus) sets")
      case None
      with False t show ?thesis
        by (simp add: td_focus_effect_def gen_focus_def focus_target_def Let_def td_fold_sets td_find)
    next
      case (Some e)
      obtain k objs where e: "e = (k, objs)" by (cases e)
      have hl: "fold (traverse (td_visit td_highlight_material)) objs ?st1
          = apply_each td_highlight_material (snd (td_entry (k, objs))) ?st1"
        by (rule td_fold_objs)
      have st1: "fold (\<lambda>(k, objs). fold (traverse (td_visit td_reset_material)) objs) sets st = ?st1"
        by (rule td_fold_sets)
      have l: "td_focus_effect focus sets st
          = fold (traverse (td_visit td_highlight_material)) objs ?st1"
        using False t Some by (simp only: td_focus_effect_def st1 Let_def e) simp
      have tg: "focus_target focus (map td_entry sets) = Some (td_entry (k, objs))"
        using t Some by (simp only: focus_target_def td_find e) simp
      have r: "gen_focus td_reset_material td_highlight_material focus (map td_entry sets) st
          = apply_each td_highlight_material (snd (td_entry (k, objs))) ?st1"
        by (simp only: gen_focus_def Let_def tg option.case)
      show ?thesis by (simp only: l r hl)
    qed
  qed
qed

lemma as_focus_effect_gen:
  "as_focus_effect focus parts st
     = gen_focus as_reset_material as_highlight_material focus (map as_entry parts) st"
proof (cases "truthy focus")
  case False
  then show ?thesis
    by (simp add: as_focus_effect_def gen_focus_def focus_target_def Let_def as_fold_parts)
next
  case True
  show ?thesis
  proof (cases "find (\<lambda>p. Some (key p) = focus) parts")
    case None
    with True show ?thesis
      by (simp add: as_focus_effect_def gen_focus_def focus_target_def Let_def as_fold_parts as_find)
  next
    case (Some tgt)
    with True show ?thesis
      by (simp add: as_focus_effect_def gen_focus_def focus_target_def Let_def as_fold_parts
          as_find as_traverse as_entry_def)
  qed
qed

subsection \<open>What the two scenes do to one material\<close>

lemma material_cases [case_names plain fresh half cached]:
  obtains "\<not> standard m"
  | "standard m" "origEmissive m = None"
  | h where "standard m" "origEmissive m = Some h" "origIntensity m = None"
  | h oi where "standard m" "origEmissive m = Some h" "origIntensity m = Some oi"
  by (cases "standard m"; cases "origEmissive m"; cases "origIntensity m") auto

lemma td_reset_cases:
  "\<not> standard m \<Longrightarrow> td_reset_material m = m"
  "origEmissive m = None \<Longrightarrow> td_reset_material m = m"
  "standard m \<Longrightarrow> origEmissive m = Some h \<Longrightarrow> origIntensity m = None \<Longrightarrow>
     td_reset_material m = m\<lparr>emissive := Color_setHex h\<rparr>"
  "standard m \<Longrightarrow> origEmissive m = Some h \<Longrightarrow> origIntensity m = Some oi \<Longrightarrow>
     td_reset_material m = m\<lparr>emissive := Color_setHex h, emissiveIntensity := Some oi\<rparr>"
  by (simp_all add: td_reset_material_def Let_def)

lemma td_highlight_cases:
  "\<not> standard m \<Longrightarrow> td_highlight_material m = m"
  "standard m \<Longrightarrow> origEmissive m = None \<Longrightarrow>
     td_highlight_material m =
       m\<lparr> origEmissive := Some (Color_getHex (emissive m)),
          origIntensity := Some (case emissiveIntensity m of Some ei \<Rightarrow> ei | None \<Rightarrow> 1),
          emissive := Color_setHex 0x1d86d5, emissiveIntensity := Some 1.2 \<rparr>"
  "standard m \<Longrightarrow> origEmissive m = Some h \<Longrightarrow>
     td_highlight_material m = m\<lparr> emissive := Color_setHex 0x1d86d5, emissiveIntensity := Some 1.2 \<rparr>"
  by (simp_all add: td_highlight_material_def Let_def)

lemma as_reset_cases:
  "\<not> standard m \<Longrightarrow> as_reset_material m = m"
  "origEmissive m = None \<Longrightarrow> as_reset_material m = m"
  "standard m \<Longrightarrow> origEmissive m = Some h \<Longrightarrow>
     as_reset_material m = m\<lparr>emissive := Color_setHex h, emissiveIntensity := origIntensity m\<rparr>"
  by (simp_all add: as_reset_material_def Let_def)

lemma as_highlight_cases:
  "\<not> standard m \<Longrightarrow> as_highlight_material m = m"
  "standard m \<Longrightarrow> origEmissive m = None \<Longrightarrow>
     as_highlight_material m =
       m\<lparr> origEmissive := Some (Color_getHex (emissive m)),
          origIntensity := Some (case emissiveIntensity m of Some ei \<Rightarrow> ei | None \<Rightarrow> 1),
          emissive := Color_lerp (Color_setHex (Color_getHex (emissive m))) (Color_setHex highlightHex) 0.65,
          emissiveIntensity :=
            Some (min ((case emissiveIntensity m of Some ei \<Rightarrow> ei | None \<Rightarrow> 1) + 0.25) 0.75) \<rparr>"
  "standard m \<Longrightarrow> origEmissive m = Some h \<Longrightarrow>
     as_highlight_material m =
       m\<lparr> emissive := Color_lerp (Color_setHex h) (Color_setHex highlightHex) 0.65,
          emissiveIntensity :=
            Some (min ((case origIntensity m of Some oi \<Rightarrow> oi | None \<Rightarrow> 0.3) + 0.25) 0.75) \<rparr>"
  by (simp_all add: as_highlight_material_def Let_def)

lemma td_reset_idem: "td_reset_material (td_reset_material m) = td_reset_material m"
  by (cases m rule: material_cases) (simp_all add: td_reset_cases)

lemma td_highlight_idem: "td_highlight_material (td_highlight_material m) = td_highlight_material m"
  by (cases m rule: material_cases) (simp_all add: td_highlight_cases)

lemma td_highlight_reset_highlight:
  "td_highlight_material (td_reset_material (td_highlight_material m)) = td_highlight_material m"
  by (cases m rule: material_cases) (simp_all add: td_highlight_cases td_reset_cases)

lemma td_reset_not_altered: "\<not> altered (td_reset_material m)"
  by (cases m rule: material_cases) (simp_all add: td_reset_cases altered_def)

lemma as_reset_idem: "as_reset_material (as_reset_material m) = as_reset_material m"
  by (cases m rule: material_cases) (simp_all add: as_reset_cases)

lemma as_highlight_idem: "as_highlight_material (as_highlight_material m) = as_highlight_material m"
  by (cases m rule: material_cases) (simp_all add: as_highlight_cases)

lemma as_highlight_reset_highlight:
  "as_highlight_material (as_reset_material (as_highlight_material m)) = as_highlight_material m"
  by (cases m rule: material_cases) (simp_all add: as_highlight_cases as_reset_cases)

lemma as_reset_not_altered: "\<not> altered (as_reset_material m)"
  by (cases m rule: material_cases) (simp_all add: as_reset_cases altered_def split: option.splits)

lemma td_keeps:
  "keeps_original h v m \<Longrightarrow> h < 16777216 \<Longrightarrow>
     keeps_original h v (td_reset_material m) \<and> keeps_original h v (td_highlight_material m)
     \<and> emissive (td_reset_material m) = Color_setHex h
     \<and> emissiveIntensity (td_reset_material m) = Some v"
  by (cases m rule: material_cases)
    (simp_all add: keeps_original_def td_reset_cases td_highlight_cases getHex_setHex)

lemma as_keeps:
  "keeps_original h v m \<Longrightarrow> h < 16777216 \<Longrightarrow>
     keeps_original h v (as_reset_material m) \<and> keeps_original h v (as_highlight_material m)
     \<and> emissive (as_reset_material m) = Color_setHex h
     \<and> emissiveIntensity (as_reset_material m) = Some v"
  by (cases m rule: material_cases)
    (simp_all add: keeps_original_def as_reset_cases as_highlight_cases getHex_setHex)

subsection \<open>Properties of the common description\<close>

lemma focus_target_mem:
  "focus_target focus reg = Some e \<Longrightarrow> e \<in> set reg \<and> Some (fst e) = focus \<and> truthy focus"
  by (auto simp: focus_target_def find_Some_iff split: if_splits)

lemma focus_target_unknown:
  "focus_target None reg = None" "focus_target (Some []) reg = None"
  "k \<notin> fst ` set reg \<Longrightarrow> focus_target (Some k) reg = None"
  by (force simp: focus_target_def truthy_def find_None_iff)+

lemma gen_focus_at:
  assumes "\<And>m. r (r m) = r m" and "\<And>m. hl (hl m) = hl m"
  shows "gen_focus r hl focus reg st i =
     (case focus_target focus reg of
        None \<Rightarrow> (if i \<in> set (concat (map snd reg)) then r (st i) else st i)
      | Some e \<Rightarrow>
          (if i \<in> set (snd e) then hl (if i \<in> set (concat (map snd reg)) then r (st i) else st i)
           else (if i \<in> set (concat (map snd reg)) then r (st i) else st i)))"
  by (simp add: gen_focus_def Let_def apply_each_at [of r, OF assms(1)]
      apply_each_at [of hl, OF assms(2)] split: option.splits)

lemma registered: "e \<in> set reg \<Longrightarrow> i \<in> set (snd e) \<Longrightarrow> i \<in> set (concat (map snd reg))"
  by auto

lemma gen_carries:
  assumes idem: "\<And>m. r (r m) = r m" "\<And>m. hl (hl m) = hl m"
    and clean: "\<And>m. \<not> altered (r m)"
    and e: "e \<in> set reg" and c: "carries (gen_focus r hl focus reg st) e"
  shows "\<exists>tgt. focus_target focus reg = Some tgt \<and> set (snd e) \<inter> set (snd tgt) \<noteq> {}"
proof -
  from c obtain i where i: "i \<in> set (snd e)" and a: "altered (gen_focus r hl focus reg st i)"
    by (auto simp: carries_def)
  from registered [OF e i] have reg: "i \<in> set (concat (map snd reg))" .
  show ?thesis
  proof (cases "focus_target focus reg")
    case None
    with a reg clean show ?thesis by (simp add: gen_focus_at [of r hl, OF idem])
  next
    case (Some tgt)
    have "i \<in> set (snd tgt)"
    proof (rule ccontr)
      assume "i \<notin> set (snd tgt)"
      with a reg Some clean show False by (simp add: gen_focus_at [of r hl, OF idem])
    qed
    with i Some show ?thesis by auto
  qed
qed

lemma gen_none_clean:
  assumes idem: "\<And>m. r (r m) = r m" "\<And>m. hl (hl m) = hl m"
    and clean: "\<And>m. \<not> altered (r m)"
    and none: "focus_target focus reg = None" and e: "e \<in> set reg"
  shows "\<not> carries (gen_focus r hl focus reg st) e"
  using gen_carries [of r hl e reg focus st, OF idem clean e] none by auto

lemma gen_only_target:
  assumes idem: "\<And>m. r (r m) = r m" "\<And>m. hl (hl m) = hl m"
    and clean: "\<And>m. \<not> altered (r m)"
    and dis: "disjoint_entries reg"
    and e: "e \<in> set reg" and c: "carries (gen_focus r hl focus reg st) e"
  shows "focus_target focus reg = Some e"
proof -
  from gen_carries [of r hl e reg focus st, OF idem clean e c]
  obtain tgt where t: "focus_target focus reg = Some tgt" and n: "set (snd e) \<inter> set (snd tgt) \<noteq> {}"
    by blast
  from focus_target_mem [OF t] have "tgt \<in> set reg" by simp
  with dis e n have "e = tgt" by (auto simp: disjoint_entries_def)
  with t show ?thesis by simp
qed

lemma gen_unknown_same:
  "focus_target focus reg = None \<Longrightarrow> gen_focus r hl focus reg st = gen_focus r hl None reg st"
  by (simp add: gen_focus_def focus_target_unknown)

lemma gen_idem:
  assumes idem: "\<And>m. r (r m) = r m" "\<And>m. hl (hl m) = hl m"
    and again: "\<And>m. hl (r (hl m)) = hl m"
  shows "gen_focus r hl focus reg (gen_focus r hl focus reg st) = gen_focus r hl focus reg st"
proof (rule ext)
  fix i
  show "gen_focus r hl focus reg (gen_focus r hl focus reg st) i = gen_focus r hl focus reg st i"
  proof (cases "focus_target focus reg")
    case None
    then show ?thesis by (simp add: gen_focus_at [of r hl, OF idem] idem)
  next
    case (Some tgt)
    from focus_target_mem [OF Some] have "tgt \<in> set reg" by simp
    then have "i \<in> set (snd tgt) \<Longrightarrow> i \<in> set (concat (map snd reg))" by auto
    with Some show ?thesis by (auto simp: gen_focus_at [of r hl, OF idem] idem again)
  qed
qed

subsection \<open>Sequences of focus changes\<close>

lemma gen_keeps_step:
  assumes idem: "\<And>m. r (r m) = r m" "\<And>m. hl (hl m) = hl m"
    and keep: "\<And>m. K m \<Longrightarrow> K (r m) \<and> K (hl m)"
    and k: "K (st i)"
  shows "K (gen_focus r hl focus reg st i)"
  using k keep by (simp add: gen_focus_at [of r hl, OF idem] split: option.splits)

lemma gen_keeps_run:
  assumes idem: "\<And>m. r (r m) = r m" "\<And>m. hl (hl m) = hl m"
    and keep: "\<And>m. K m \<Longrightarrow> K (r m) \<and> K (hl m)"
  shows "K (st i) \<Longrightarrow> K (fold (\<lambda>focus. gen_focus r hl focus reg) fs st i)"
proof (induction fs arbitrary: st)
  case Nil
  then show ?case by simp
next
  case (Cons f fs)
  have "K (gen_focus r hl f reg st i)"
    using idem keep Cons.prems by (rule gen_keeps_step [where K = K and st = st and i = i])
  then have "K (fold (\<lambda>focus. gen_focus r hl focus reg) fs (gen_focus r hl f reg st) i)"
    by (rule Cons.IH [where st = "gen_focus r hl f reg st"])
  then show ?case by simp
qed

lemma gen_reverted:
  assumes idem: "\<And>m. r (r m) = r m" "\<And>m. hl (hl m) = hl m"
    and i: "i \<in> set (concat (map snd reg))"
    and off: "\<And>tgt. focus_target final reg = Some tgt \<Longrightarrow> i \<notin> set (snd tgt)"
  shows "gen_focus r hl final reg st i = r (st i)"
  using i off by (simp add: gen_focus_at [of r hl, OF idem] split: option.splits)

lemma td_run_gen:
  "td_focus_run fs sets st = fold (\<lambda>focus. gen_focus td_reset_material td_highlight_material focus (td_registry sets)) fs st"
  by (simp add: td_focus_run_def td_registry_def td_focus_effect_gen [abs_def])

lemma as_run_gen:
  "as_focus_run fs parts st = fold (\<lambda>focus. gen_focus as_reset_material as_highlight_material focus (as_registry parts)) fs st"
  by (simp add: as_focus_run_def as_registry_def as_focus_effect_gen [abs_def])

lemma td_round_trip:
  assumes k: "keeps_original h v (st i)" and h: "h < 16777216"
    and i: "i \<in> set (concat (map snd (td_registry sets)))"
    and off: "\<And>tgt. focus_target final (td_registry sets) = Some tgt \<Longrightarrow> i \<notin> set (snd tgt)"
  shows "emissive (td_focus_run (fs @ [final]) sets st i) = Color_setHex h
     \<and> emissiveIntensity (td_focus_run (fs @ [final]) sets st i) = Some v"
proof -
  let ?g = "\<lambda>focus. gen_focus td_reset_material td_highlight_material focus (td_registry sets)"
  let ?st = "fold ?g fs st"
  have keep: "keeps_original h v m \<Longrightarrow>
      keeps_original h v (td_reset_material m) \<and> keeps_original h v (td_highlight_material m)" for m
    using td_keeps [of h v m] h by blast
  have kn: "keeps_original h v (?st i)"
    using td_reset_idem td_highlight_idem keep k
    by (rule gen_keeps_run [where K = "keeps_original h v" and st = st and i = i])
  have "td_focus_run (fs @ [final]) sets st i = ?g final ?st i"
    by (simp add: td_run_gen)
  also have "\<dots> = td_reset_material (?st i)"
    by (rule gen_reverted [OF td_reset_idem td_highlight_idem i off])
  finally show ?thesis using td_keeps [OF kn h] by simp
qed

lemma as_round_trip:
  assumes k: "keeps_original h v (st i)" and h: "h < 16777216"
    and i: "i \<in> set (concat (map snd (as_registry parts)))"
    and off: "\<And>tgt. focus_target final (as_registry parts) = Some tgt \<Longrightarrow> i \<notin> set (snd tgt)"
  shows "emissive (as_focus_run (fs @ [final]) parts st i) = Color_setHex h
     \<and> emissiveIntensity (as_focus_run (fs @ [final]) parts st i) = Some v"
proof -
  let ?g = "\<lambda>focus. gen_focus as_reset_material as_highlight_material focus (as_registry parts)"
  let ?st = "fold ?g fs st"
  have keep: "keeps_original h v m \<Longrightarrow>
      keeps_original h v (as_reset_material m) \<and> keeps_original h v (as_highlight_material m)" for m
    using as_keeps [of h v m] h by blast
  have kn: "keeps_original h v (?st i)"
    using as_reset_idem as_highlight_idem keep k
    by (rule gen_keeps_run [where K = "keeps_original h v" and st = st and i = i])
  have "as_focus_run (fs @ [final]) parts st i = ?g final ?st i"
    by (simp add: as_run_gen)
  also have "\<dots> = as_reset_material (?st i)"
    by (rule gen_reverted [OF as_reset_idem as_highlight_idem i off])
  finally show ?thesis using as_keeps [OF kn h] by simp
qed

lemma td_effect_reg:
  "td_focus_effect focus sets st
     = gen_focus td_reset_material td_highlight_material focus (td_registry sets) st"
  by (simp add: td_registry_def td_focus_effect_gen)

lemma as_effect_reg:
  "as_focus_effect focus parts st
     = gen_focus as_reset_material as_highlight_material focus (as_registry parts) st"
  by (simp add: as_registry_def as_focus_effect_gen)

lemma td_keys: "fst ` set (td_registry sets) = fst ` set sets"
  by (force simp: td_registry_def td_entry_def)

lemma as_keys: "fst ` set (as_registry parts) = key ` set parts"
  by (force simp: as_registry_def as_entry_def)

subsection \<open>The focus invariant\<close>

lemma td_carries_overlap:
  "\<forall>e \<in> set (td_registry sets). carries (td_focus_effect focus sets st) e \<longrightarrow>
       (\<exists>tgt. focus_target focus (td_registry sets) = Some tgt \<and> set (snd e) \<inter> set (snd tgt) \<noteq> {})
       \<and> (disjoint_entries (td_registry sets) \<longrightarrow> focus_target focus (td_registry sets) = Some e)"
proof (intro ballI impI conjI)
  fix e
  assume e: "e \<in> set (td_registry sets)" and c: "carries (td_focus_effect focus sets st) e"
  from c have c': "carries (gen_focus td_reset_material td_highlight_material focus (td_registry sets) st) e"
    by (simp only: td_effect_reg)
  show "\<exists>tgt. focus_target focus (td_registry sets) = Some tgt \<and> set (snd e) \<inter> set (snd tgt) \<noteq> {}"
    by (rule gen_carries [OF td_reset_idem td_highlight_idem td_reset_not_altered e c'])
  assume d: "disjoint_entries (td_registry sets)"
  show "focus_target focus (td_registry sets) = Some e"
    by (rule gen_only_target [OF td_reset_idem td_highlight_idem td_reset_not_altered d e c'])
qed

lemma td_no_target:
  "focus_target focus (td_registry sets) = None \<longrightarrow>
        td_focus_effect focus sets st = td_focus_effect None sets st
        \<and> (\<forall>e \<in> set (td_registry sets). \<not> carries (td_focus_effect focus sets st) e)"
proof (intro impI conjI ballI)
  assume n: "focus_target focus (td_registry sets) = None"
  show "td_focus_effect focus sets st = td_focus_effect None sets st"
    by (simp only: td_effect_reg gen_unknown_same [OF n])
  fix e
  assume e: "e \<in> set (td_registry sets)"
  show "\<not> carries (td_focus_effect focus sets st) e"
    unfolding td_effect_reg
    by (rule gen_none_clean [OF td_reset_idem td_highlight_idem td_reset_not_altered n e])
qed

lemma td_unknown_key:
  "k \<notin> fst ` set sets \<longrightarrow> focus_target (Some k) (td_registry sets) = None"
proof
  assume "k \<notin> fst ` set sets"
  then have "k \<notin> fst ` set (td_registry sets)" by (simp add: td_keys)
  then show "focus_target (Some k) (td_registry sets) = None" by (rule focus_target_unknown(3))
qed

lemma td_round_trip_imp:
  "keeps_original h v (st i) \<and> h < 16777216
        \<and> i \<in> set (concat (map snd (td_registry sets)))
        \<and> (\<forall>tgt. focus_target final (td_registry sets) = Some tgt \<longrightarrow> i \<notin> set (snd tgt)) \<longrightarrow>
        emissive (td_focus_run (fs @ [final]) sets st i) = Color_setHex h
        \<and> emissiveIntensity (td_focus_run (fs @ [final]) sets st i) = Some v"
proof
  assume a: "keeps_original h v (st i) \<and> h < 16777216
        \<and> i \<in> set (concat (map snd (td_registry sets)))
        \<and> (\<forall>tgt. focus_target final (td_registry sets) = Some tgt \<longrightarrow> i \<notin> set (snd tgt))"
  then have k: "keeps_original h v (st i)" and h: "h < 16777216"
    and i: "i \<in> set (concat (map snd (td_registry sets)))"
    and off: "\<forall>tgt. focus_target final (td_registry sets) = Some tgt \<longrightarrow> i \<notin> set (snd tgt)"
    by blast+
  from off have off': "\<And>tgt. focus_target final (td_registry sets) = Some tgt \<Longrightarrow> i \<notin> set (snd tgt)"
    by blast
  show "emissive (td_focus_run (fs @ [final]) sets st i) = Color_setHex h
        \<and> emissiveIntensity (td_focus_run (fs @ [final]) sets st i) = Some v"
    using k h i off' by (rule td_round_trip [where st = st and i = i])
qed

lemma as_carries_overlap:
  "\<forall>e \<in> set (as_registry parts). carries (as_focus_effect focus parts st) e \<longrightarrow>
       (\<exists>tgt. focus_target focus (as_registry parts) = Some tgt \<and> set (snd e) \<inter> set (snd tgt) \<noteq> {})
       \<and> (disjoint_entries (as_registry parts) \<longrightarrow> focus_target focus (as_registry parts) = Some e)"
proof (intro ballI impI conjI)
  fix e
  assume e: "e \<in> set (as_registry parts)" and c: "carries (as_focus_effect focus parts st) e"
  from c have c': "carries (gen_focus as_reset_material as_highlight_material focus (as_registry parts) st) e"
    by (simp only: as_effect_reg)
  show "\<exists>tgt. focus_target focus (as_registry parts) = Some tgt \<and> set (snd e) \<inter> set (snd tgt) \<noteq> {}"
    by (rule gen_carries [OF as_reset_idem as_highlight_idem as_reset_not_altered e c'])
  assume d: "disjoint_entries (as_registry parts)"
  show "focus_target focus (as_registry parts) = Some e"
    by (rule gen_only_target [OF as_reset_idem as_highlight_idem as_reset_not_altered d e c'])
qed

lemma as_no_target:
  "focus_target focus (as_registry parts) = None \<longrightarrow>
        as_focus_effect focus parts st = as_focus_effect None parts st
        \<and> (\<forall>e \<in> set (as_registry parts). \<not> carries (as_focus_effect focus parts st) e)"
proof (intro impI conjI ballI)
  assume n: "focus_target focus (as_registry parts) = None"
  show "as_focus_effect focus parts st = as_focus_effect None parts st"
    by (simp only: as_effect_reg gen_unknown_same [OF n])
  fix e
  assume e: "e \<in> set (as_registry parts)"
  show "\<not> carries (as_focus_effect focus parts st) e"
    unfolding as_effect_reg
    by (rule gen_none_clean [OF as_reset_idem as_highlight_idem as_reset_not_altered n e])
qed

lemma as_unknown_key:
  "k \<notin> key ` set parts \<longrightarrow> focus_target (Some k) (as_registry parts) = None"
proof
  assume "k \<notin> key ` set parts"
  then have "k \<notin> fst ` set (as_registry parts)" by (simp add: as_keys)
  then show "focus_target (Some k) (as_registry parts) = None" by (rule focus_target_unknown(3))
qed

lemma as_round_trip_imp:
  "keeps_original h v (st i) \<and> h < 16777216
        \<and> i \<in> set (concat (map snd (as_registry parts)))
        \<and> (\<forall>tgt. focus_target final (as_registry parts) = Some tgt \<longrightarrow> i \<notin> set (snd tgt)) \<longrightarrow>
        emissive (as_focus_run (fs @ [final]) parts st i) = Color_setHex h
        \<and> emissiveIntensity (as_focus_run (fs @ [final]) parts st i) = Some v"
proof
  assume a: "keeps_original h v (st i) \<and> h < 16777216
        \<and> i \<in> set (concat (map snd (as_registry parts)))
        \<and> (\<forall>tgt. focus_target final (as_registry parts) = Some tgt \<longrightarrow> i \<notin> set (snd tgt))"
  then have k: "keeps_original h v (st i)" and h: "h < 16777216"
    and i: "i \<in> set (concat (map snd (as_registry parts)))"
    and off: "\<forall>tgt. focus_target final (as_registry parts) = Some tgt \<longrightarrow> i \<notin> set (snd tgt)"
    by blast+
  from off have off': "\<And>tgt. focus_target final (as_registry parts) = Some tgt \<Longrightarrow> i \<notin> set (snd tgt)"
    by blast
  show "emissive (as_focus_run (fs @ [final]) parts st i) = Color_setHex h
        \<and> emissiveIntensity (as_focus_run (fs @ [final]) parts st i) = Some v"
    using k h i off' by (rule as_round_trip [where st = st and i = i])
qed

text \<open>
  Claim C2, for the focus effect of the production pad (\<open>td\<close>) and of the pump assembly
  (\<open>as\<close>), on any store and for any focus, so after each change of any sequence. A
  registry entry that carries a highlight after the effect shares a material with the entry
  the focus names; when the entries share no materials it is that entry, so at most one
  part is highlighted. When the focus names no entry (null, the empty string, a key absent
  from the registry) the effect is the one of a null focus and no entry carries a
  highlight. For a registered material whose original emissive state is the colour of
  \<open>h\<close> at intensity \<open>v\<close>, any sequence of focus changes that ends with a focus whose
  entry does not hold the material leaves it with that colour and that intensity.
\<close>

theorem focus_invariant:
  "(\<forall>e \<in> set (td_registry sets). carries (td_focus_effect focus sets st) e \<longrightarrow>
       (\<exists>tgt. focus_target focus (td_registry sets) = Some tgt \<and> set (snd e) \<inter> set (snd tgt) \<noteq> {})
       \<and> (disjoint_entries (td_registry sets) \<longrightarrow> focus_target focus (td_registry sets) = Some e))
   \<and> (focus_target focus (td_registry sets) = None \<longrightarrow>
        td_focus_effect focus sets st = td_focus_effect None sets st
        \<and> (\<forall>e \<in> set (td_registry sets). \<not> carries (td_focus_effect focus sets st) e))
   \<and> focus_target None (td_registry sets) = None
   \<and> (k \<notin> fst ` set sets \<longrightarrow> focus_target (Some k) (td_registry sets) = None)
   \<and> (keeps_original h v (st i) \<and> h < 16777216
        \<and> i \<in> set (concat (map snd (td_registry sets)))
        \<and> (\<forall>tgt. focus_target final (td_registry sets) = Some tgt \<longrightarrow> i \<notin> set (snd tgt)) \<longrightarrow>
        emissive (td_focus_run (fs @ [final]) sets st i) = Color_setHex h
        \<and> emissiveIntensity (td_focus_run (fs @ [final]) sets st i) = Some v)
   \<and> (\<forall>e \<in> set (as_registry parts). carries (as_focus_effect focus parts st) e \<longrightarrow>
       (\<exists>tgt. focus_target focus (as_registry parts) = Some tgt \<and> set (snd e) \<inter> set (snd tgt) \<noteq> {})
       \<and> (disjoint_entries (as_registry parts) \<longrightarrow> focus_target focus (as_registry parts) = Some e))
   \<and> (focus_target focus (as_registry parts) = None \<longrightarrow>
        as_focus_effect focus parts st = as_focus_effect None parts st
        \<and> (\<forall>e \<in> set (as_registry parts). \<not> carries (as_focus_effect focus parts st) e))
   \<and> focus_target None (as_registry parts) = None
   \<and> (k \<notin> key ` set parts \<longrightarrow> focus_target (Some k) (as_registry parts) = None)
   \<and> (keeps_original h v (st i) \<and> h < 16777216
        \<and> i \<in> set (concat (map snd (as_registry parts)))
        \<and> (\<forall>tgt. focus_target final (as_registry parts) = Some tgt \<longrightarrow> i \<notin> set (snd tgt)) \<longrightarrow>
        emissive (as_focus_run (fs @ [final]) parts st i) = Color_setHex h
        \<and> emissiveIntensity (as_focus_run (fs @ [final]) parts st i) = Some v)"
  by (intro conjI td_carries_overlap td_no_target focus_target_unknown(1) td_unknown_key
      td_round_trip_imp as_carries_overlap as_no_target as_unknown_key as_round_trip_imp)

subsection \<open>The example scenes\<close>

lemma example_td_registry: "td_registry example_sets = [(''pumpjack'', [3]), (''tanks'', [4, 5])]"
  by (simp add: td_registry_def td_entry_def example_sets_def)

lemma example_as_registry: "as_registry example_parts = [(''motor'', [3]), (''impeller'', [4, 5])]"
  by (simp add: as_registry_def as_entry_def example_parts_def)

lemma example_targets:
  "focus_target (Some ''tanks'') [(''pumpjack'', [3]), (''tanks'', [4, 5])] = Some (''tanks'', [4, 5])"
  "focus_target (Some ''impeller'') [(''motor'', [3]), (''impeller'', [4, 5])] = Some (''impeller'', [4, 5])"
  "focus_target (Some ''valve'') [(''pumpjack'', [3]), (''tanks'', [4, 5])] = None"
  "focus_target (Some ''valve'') [(''motor'', [3]), (''impeller'', [4, 5])] = None"
  by (simp_all add: focus_target_def truthy_def)

lemma example_disjoint:
  "disjoint_entries [(''pumpjack'', [3]), (''tanks'', [4, 5 :: nat])]"
  "disjoint_entries [(''motor'', [3]), (''impeller'', [4, 5 :: nat])]"
  by (simp_all add: disjoint_entries_def)

lemma shell_keeps: "keeps_original 0x0d1012 0.18 (example_store i)"
  by (simp add: keeps_original_def example_store_def shell_material_def)

lemma hue_differs:
  "Color_setHex 0x1d86d5 \<noteq> Color_setHex 0x0d1012"
  "Color_lerp (Color_setHex 0x0d1012) (Color_setHex highlightHex) 0.65 \<noteq> Color_setHex 0x0d1012"
  by (simp_all add: Color_setHex_def Color_lerp_def channel_def highlightHex_def)

lemma example_td_highlighted:
  "td_focus_effect (Some ''tanks'') example_sets example_store 4
     = shell_material\<lparr> origEmissive := Some 0x0d1012, origIntensity := Some 0.18,
         emissive := Color_setHex 0x1d86d5, emissiveIntensity := Some 1.2 \<rparr>"
proof -
  have "td_focus_effect (Some ''tanks'') example_sets example_store 4
      = td_highlight_material (td_reset_material shell_material)"
    by (simp add: td_effect_reg example_td_registry example_targets example_store_def
        gen_focus_at [of td_reset_material td_highlight_material, OF td_reset_idem td_highlight_idem])
  also have "td_reset_material shell_material = shell_material"
    by (simp add: td_reset_cases shell_material_def)
  also have "td_highlight_material shell_material
      = shell_material\<lparr> origEmissive := Some (Color_getHex (Color_setHex 0x0d1012)),
          origIntensity := Some 0.18,
          emissive := Color_setHex 0x1d86d5, emissiveIntensity := Some 1.2 \<rparr>"
    by (simp add: td_highlight_cases shell_material_def)
  finally show ?thesis by (simp add: getHex_setHex)
qed

lemma example_as_highlighted:
  "as_focus_effect (Some ''impeller'') example_parts example_store 4
     = shell_material\<lparr> origEmissive := Some 0x0d1012, origIntensity := Some 0.18,
         emissive := Color_lerp (Color_setHex 0x0d1012) (Color_setHex highlightHex) 0.65,
         emissiveIntensity := Some 0.43 \<rparr>"
proof -
  have "as_focus_effect (Some ''impeller'') example_parts example_store 4
      = as_highlight_material (as_reset_material shell_material)"
    by (simp add: as_effect_reg example_as_registry example_targets example_store_def
        gen_focus_at [of as_reset_material as_highlight_material, OF as_reset_idem as_highlight_idem])
  also have "as_reset_material shell_material = shell_material"
    by (simp add: as_reset_cases shell_material_def)
  also have "as_highlight_material shell_material
      = shell_material\<lparr> origEmissive := Some (Color_getHex (Color_setHex 0x0d1012)),
          origIntensity := Some 0.18,
          emissive := Color_lerp (Color_setHex (Color_getHex (Color_setHex 0x0d1012)))
                         (Color_setHex highlightHex) 0.65,
          emissiveIntensity := Some 0.43 \<rparr>"
    by (simp add: as_highlight_cases shell_material_def)
  finally show ?thesis by (simp add: getHex_setHex)
qed

lemma example_td_carries:
  "carries (td_focus_effect (Some ''tanks'') example_sets example_store) (''tanks'', [4, 5])"
proof -
  have "altered (td_focus_effect (Some ''tanks'') example_sets example_store 4)"
    unfolding example_td_highlighted using hue_differs(1)
    by (simp add: altered_def shell_material_def)
  then show ?thesis by (simp add: carries_def)
qed

lemma example_as_carries:
  "carries (as_focus_effect (Some ''impeller'') example_parts example_store) (''impeller'', [4, 5])"
proof -
  have "altered (as_focus_effect (Some ''impeller'') example_parts example_store 4)"
    unfolding example_as_highlighted using hue_differs(2)
    by (simp add: altered_def shell_material_def)
  then show ?thesis by (simp add: carries_def)
qed

text \<open>
  Focus on the tanks, on the impeller, on a key no registry has, and a sequence that
  highlights material 4 and ends with a null focus.
\<close>

theorem focus_invariant_witness:
  "carries (td_focus_effect (Some ''tanks'') example_sets example_store) (''tanks'', [4, 5])
   \<and> disjoint_entries (td_registry example_sets)
   \<and> focus_target (Some ''tanks'') (td_registry example_sets) = Some (''tanks'', [4, 5])
   \<and> \<not> carries (td_focus_effect (Some ''tanks'') example_sets example_store) (''pumpjack'', [3])
   \<and> focus_target (Some ''valve'') (td_registry example_sets) = None
   \<and> td_focus_effect (Some ''valve'') example_sets example_store
       = td_focus_effect None example_sets example_store
   \<and> \<not> carries (td_focus_effect (Some ''valve'') example_sets example_store) (''tanks'', [4, 5])
   \<and> keeps_original 0x0d1012 0.18 (example_store 4)
   \<and> emissive (td_focus_run ([Some ''tanks'', Some ''pumpjack''] @ [None]) example_sets example_store 4)
       = Color_setHex 0x0d1012
   \<and> emissiveIntensity (td_focus_run ([Some ''tanks'', Some ''pumpjack''] @ [None]) example_sets example_store 4)
       = Some 0.18
   \<and> carries (as_focus_effect (Some ''impeller'') example_parts example_store) (''impeller'', [4, 5])
   \<and> disjoint_entries (as_registry example_parts)
   \<and> \<not> carries (as_focus_effect (Some ''impeller'') example_parts example_store) (''motor'', [3])
   \<and> as_focus_effect (Some ''valve'') example_parts example_store
       = as_focus_effect None example_parts example_store
   \<and> emissive (as_focus_run ([Some ''impeller'', Some ''motor''] @ [None]) example_parts example_store 4)
       = Color_setHex 0x0d1012
   \<and> emissiveIntensity (as_focus_run ([Some ''impeller'', Some ''motor''] @ [None]) example_parts example_store 4)
       = Some 0.18"
proof -
  note hit = focus_invariant [where sets = example_sets and parts = example_parts
      and st = example_store and focus = "Some ''tanks''" and k = "''valve''"
      and h = "0x0d1012" and v = "0.18" and i = 4 and final = None
      and fs = "[Some ''tanks'', Some ''pumpjack'']"]
  note hit' = focus_invariant [where sets = example_sets and parts = example_parts
      and st = example_store and focus = "Some ''impeller''" and k = "''valve''"
      and h = "0x0d1012" and v = "0.18" and i = 4 and final = None
      and fs = "[Some ''impeller'', Some ''motor'']"]
  note miss = focus_invariant [where sets = example_sets and parts = example_parts
      and st = example_store and focus = "Some ''valve''" and k = "''valve''"
      and h = "0x0d1012" and v = "0.18" and i = 4 and final = None and fs = "[]"]
  note c = conjunct1 and d = conjunct2
  note td1 = hit [THEN c]
  note td5 = hit [THEN d, THEN d, THEN d, THEN d, THEN c]
  note as5 = hit' [THEN d, THEN d, THEN d, THEN d, THEN d, THEN d, THEN d, THEN d, THEN d]
  note as1 = hit' [THEN d, THEN d, THEN d, THEN d, THEN d, THEN c]
  note td2 = miss [THEN d, THEN c]
  note as2 = miss [THEN d, THEN d, THEN d, THEN d, THEN d, THEN d, THEN c]
  have rt: "td_registry example_sets = [(''pumpjack'', [3]), (''tanks'', [4, 5])]"
    by (rule example_td_registry)
  have ra: "as_registry example_parts = [(''motor'', [3]), (''impeller'', [4, 5])]"
    by (rule example_as_registry)
  have w1: "\<not> carries (td_focus_effect (Some ''tanks'') example_sets example_store) (''pumpjack'', [3])"
    using td1 [THEN bspec, of "(''pumpjack'', [3])"] example_disjoint(1) example_targets(1)
    by (simp add: rt)
  have w2: "\<not> carries (as_focus_effect (Some ''impeller'') example_parts example_store) (''motor'', [3])"
    using as1 [THEN bspec, of "(''motor'', [3])"] example_disjoint(2) example_targets(2)
    by (simp add: ra)
  have w3: "td_focus_effect (Some ''valve'') example_sets example_store
       = td_focus_effect None example_sets example_store
     \<and> \<not> carries (td_focus_effect (Some ''valve'') example_sets example_store) (''tanks'', [4, 5])"
  proof -
    note x = td2 [unfolded rt, THEN mp, OF example_targets(3)]
    have "(''tanks'', [4, 5]) \<in> set [(''pumpjack'', [3]), (''tanks'', [4, 5 :: nat])]" by simp
    from x [THEN conjunct2, THEN bspec, OF this] x [THEN conjunct1] show ?thesis by (rule conjI [rotated])
  qed
  have w4: "as_focus_effect (Some ''valve'') example_parts example_store
       = as_focus_effect None example_parts example_store"
    by (rule as2 [unfolded ra, THEN mp, OF example_targets(4), THEN conjunct1])
  have n: "focus_target None reg = None" for reg
    by (rule focus_target_unknown(1))
  have w5: "emissive (td_focus_run ([Some ''tanks'', Some ''pumpjack''] @ [None]) example_sets example_store 4)
       = Color_setHex 0x0d1012
     \<and> emissiveIntensity (td_focus_run ([Some ''tanks'', Some ''pumpjack''] @ [None]) example_sets example_store 4)
       = Some 0.18"
    using td5 shell_keeps [of 4] by (simp add: rt n)
  have w6: "emissive (as_focus_run ([Some ''impeller'', Some ''motor''] @ [None]) example_parts example_store 4)
       = Color_setHex 0x0d1012
     \<and> emissiveIntensity (as_focus_run ([Some ''impeller'', Some ''motor''] @ [None]) example_parts example_store 4)
       = Some 0.18"
    using as5 shell_keeps [of 4] by (simp add: ra n)
  note parts = example_td_carries example_disjoint(1) example_targets(1) w1 example_targets(3)
    w3 [THEN conjunct1] w3 [THEN conjunct2] shell_keeps [of 4] w5 [THEN conjunct1]
    w5 [THEN conjunct2] example_as_carries example_disjoint(2) w2 w4 w6 [THEN conjunct1]
    w6 [THEN conjunct2]
  show ?thesis
    unfolding rt ra by (intro conjI) (rule parts)+
qed

subsection \<open>The highlight that is applied\<close>

lemma gen_target_at:
  assumes "\<And>m. r (r m) = r m" and "\<And>m. hl (hl m) = hl m"
    and t: "focus_target focus reg = Some tgt" and i: "i \<in> set (snd tgt)"
  shows "gen_focus r hl focus reg st i = hl (r (st i))"
proof -
  from focus_target_mem [OF t] have "tgt \<in> set reg" by simp
  from registered [OF this i] t i show ?thesis
    by (simp add: gen_focus_at [of r hl, OF assms(1,2)])
qed

lemma reset_keeps_cache:
  "standard (td_reset_material m) = standard m"
  "standard (as_reset_material m) = standard m"
  "origEmissive (as_reset_material m) = origEmissive m"
  "origEmissive m = None \<Longrightarrow> emissive (as_reset_material m) = emissive m"
  by (cases m rule: material_cases; simp add: td_reset_cases as_reset_cases)+

lemma td_highlight_result:
  "standard m \<Longrightarrow> emissive (td_highlight_material m) = Color_setHex 0x1d86d5
     \<and> emissiveIntensity (td_highlight_material m) = Some 1.2"
  by (cases m rule: material_cases) (simp_all add: td_highlight_cases)

lemma as_highlight_colour:
  "standard m \<Longrightarrow>
     \<exists>h. origEmissive (as_highlight_material m) = Some h
       \<and> emissive (as_highlight_material m) = Color_lerp (Color_setHex h) (Color_setHex highlightHex) 0.65
       \<and> (origEmissive m = None \<longrightarrow> h = Color_getHex (emissive m))"
  by (cases m rule: material_cases) (simp_all add: as_highlight_cases)

lemma as_highlight_intensity_eq:
  "standard m \<Longrightarrow>
     emissiveIntensity (as_highlight_material m)
       = Some (min ((case origIntensity (as_highlight_material m) of Some oi \<Rightarrow> oi | None \<Rightarrow> 0.3)
                    + 0.25) 0.75)"
  by (cases m rule: material_cases) (simp_all add: as_highlight_cases)

lemma as_highlight_intensity:
  assumes "standard m"
  shows "\<exists>x. emissiveIntensity (as_highlight_material m) = Some x \<and> x \<le> 0.75
       \<and> (\<forall>oi. origIntensity (as_highlight_material m) = Some oi \<longrightarrow>
             x = min (oi + 0.25) 0.75 \<and> x \<le> oi + 0.25)"
proof (intro exI conjI allI impI)
  show "emissiveIntensity (as_highlight_material m)
       = Some (min ((case origIntensity (as_highlight_material m) of Some oi \<Rightarrow> oi | None \<Rightarrow> 0.3)
                    + 0.25) 0.75)"
    by (rule as_highlight_intensity_eq [OF assms])
  show "min ((case origIntensity (as_highlight_material m) of Some oi \<Rightarrow> oi | None \<Rightarrow> 0.3)
                    + 0.25) 0.75 \<le> (0.75 :: real)"
    by (rule min.cobounded2)
  fix oi
  assume o: "origIntensity (as_highlight_material m) = Some oi"
  show "min ((case origIntensity (as_highlight_material m) of Some oi \<Rightarrow> oi | None \<Rightarrow> 0.3)
                    + 0.25) 0.75 = min (oi + 0.25) 0.75"
    by (simp only: o option.case)
  show "min ((case origIntensity (as_highlight_material m) of Some oi \<Rightarrow> oi | None \<Rightarrow> 0.3)
                    + 0.25) 0.75 \<le> oi + 0.25"
    by (simp only: o option.case)
qed

lemma as_applied:
  "focus_target focus (as_registry parts) = Some tgt \<and> i \<in> set (snd tgt) \<and> standard (st i) \<longrightarrow>
      (\<exists>h. origEmissive (as_focus_effect focus parts st i) = Some h
           \<and> emissive (as_focus_effect focus parts st i)
               = Color_lerp (Color_setHex h) (Color_setHex highlightHex) 0.65
           \<and> (origEmissive (st i) = None \<longrightarrow> h = Color_getHex (emissive (st i))))
      \<and> (\<exists>x. emissiveIntensity (as_focus_effect focus parts st i) = Some x \<and> x \<le> 0.75
           \<and> (\<forall>oi. origIntensity (as_focus_effect focus parts st i) = Some oi \<longrightarrow>
                 x = min (oi + 0.25) 0.75 \<and> x \<le> oi + 0.25))"
proof (intro impI, elim conjE)
  assume t: "focus_target focus (as_registry parts) = Some tgt" and i: "i \<in> set (snd tgt)"
    and s: "standard (st i)"
  define m where "m = as_reset_material (st i)"
  have at: "as_focus_effect focus parts st i = as_highlight_material m"
    unfolding as_effect_reg m_def
    by (rule gen_target_at [of as_reset_material as_highlight_material,
          OF as_reset_idem as_highlight_idem t i])
  have sm: "standard m" using s by (simp add: m_def reset_keeps_cache)
  have fresh: "origEmissive (st i) = None \<Longrightarrow> origEmissive m = None \<and> emissive m = emissive (st i)"
    by (simp add: m_def reset_keeps_cache)
  from as_highlight_colour [OF sm] obtain h where
    h1: "origEmissive (as_highlight_material m) = Some h"
    and h2: "emissive (as_highlight_material m) = Color_lerp (Color_setHex h) (Color_setHex highlightHex) 0.65"
    and h3: "origEmissive m = None \<longrightarrow> h = Color_getHex (emissive m)"
    by (elim exE conjE)
  have h3': "origEmissive (st i) = None \<longrightarrow> h = Color_getHex (emissive (st i))"
  proof
    assume n: "origEmissive (st i) = None"
    from fresh [OF n] h3 show "h = Color_getHex (emissive (st i))" by simp
  qed
  have colour: "\<exists>h. origEmissive (as_highlight_material m) = Some h
           \<and> emissive (as_highlight_material m)
               = Color_lerp (Color_setHex h) (Color_setHex highlightHex) 0.65
           \<and> (origEmissive (st i) = None \<longrightarrow> h = Color_getHex (emissive (st i)))"
    by (rule exI [of _ h]) (intro conjI h1 h2 h3')
  show "(\<exists>h. origEmissive (as_focus_effect focus parts st i) = Some h
           \<and> emissive (as_focus_effect focus parts st i)
               = Color_lerp (Color_setHex h) (Color_setHex highlightHex) 0.65
           \<and> (origEmissive (st i) = None \<longrightarrow> h = Color_getHex (emissive (st i))))
      \<and> (\<exists>x. emissiveIntensity (as_focus_effect focus parts st i) = Some x \<and> x \<le> 0.75
           \<and> (\<forall>oi. origIntensity (as_focus_effect focus parts st i) = Some oi \<longrightarrow>
                 x = min (oi + 0.25) 0.75 \<and> x \<le> oi + 0.25))"
    unfolding at by (rule conjI [OF colour as_highlight_intensity [OF sm]])
qed

lemma td_applied:
  "focus_target focus (td_registry sets) = Some tgt \<and> i \<in> set (snd tgt) \<and> standard (st i) \<longrightarrow>
        emissive (td_focus_effect focus sets st i) = Color_setHex 0x1d86d5
        \<and> emissiveIntensity (td_focus_effect focus sets st i) = Some 1.2"
proof (intro impI, elim conjE)
  assume t: "focus_target focus (td_registry sets) = Some tgt" and i: "i \<in> set (snd tgt)"
    and s: "standard (st i)"
  have at: "td_focus_effect focus sets st i = td_highlight_material (td_reset_material (st i))"
    unfolding td_effect_reg by (rule gen_target_at [of td_reset_material td_highlight_material, OF td_reset_idem td_highlight_idem t i])
  have sm: "standard (td_reset_material (st i))" using s by (simp add: reset_keeps_cache)
  show "emissive (td_focus_effect focus sets st i) = Color_setHex 0x1d86d5
        \<and> emissiveIntensity (td_focus_effect focus sets st i) = Some 1.2"
    unfolding at by (rule td_highlight_result [OF sm])
qed

lemma as_twice:
  "as_focus_effect focus parts (as_focus_effect focus parts st) = as_focus_effect focus parts st"
  unfolding as_effect_reg
  by (rule gen_idem [of as_reset_material as_highlight_material, OF as_reset_idem as_highlight_idem as_highlight_reset_highlight])

lemma td_twice:
  "td_focus_effect focus sets (td_focus_effect focus sets st) = td_focus_effect focus sets st"
  unfolding td_effect_reg
  by (rule gen_idem [of td_reset_material td_highlight_material, OF td_reset_idem td_highlight_idem td_highlight_reset_highlight])

text \<open>
  Claim C6, as the code has it. When the focus names a registry entry, each material of
  the entry that passes the scene's test is highlighted as follows. In the pump assembly
  its emissive colour becomes the cached original colour moved 65 percent of the way to
  the fixed hue \<open>0xffa640\<close>, the cache being filled from the current colour when it was
  empty, and its intensity becomes the cached intensity plus 0.25, capped at 0.75. On the
  production pad its emissive colour becomes the fixed hue \<open>0x1d86d5\<close> and its intensity
  1.2, whatever the original was. In both scenes running the effect a second time with the
  same focus leaves the store as the first run left it.
\<close>

theorem highlight_application:
  "(focus_target focus (as_registry parts) = Some tgt \<and> i \<in> set (snd tgt) \<and> standard (st i) \<longrightarrow>
      (\<exists>h. origEmissive (as_focus_effect focus parts st i) = Some h
           \<and> emissive (as_focus_effect focus parts st i)
               = Color_lerp (Color_setHex h) (Color_setHex highlightHex) 0.65
           \<and> (origEmissive (st i) = None \<longrightarrow> h = Color_getHex (emissive (st i))))
      \<and> (\<exists>x. emissiveIntensity (as_focus_effect focus parts st i) = Some x \<and> x \<le> 0.75
           \<and> (\<forall>oi. origIntensity (as_focus_effect focus parts st i) = Some oi \<longrightarrow>
                 x = min (oi + 0.25) 0.75 \<and> x \<le> oi + 0.25)))
   \<and> (focus_target focus' (td_registry sets) = Some tgt' \<and> i' \<in> set (snd tgt') \<and> standard (st i') \<longrightarrow>
        emissive (td_focus_effect focus' sets st i') = Color_setHex 0x1d86d5
        \<and> emissiveIntensity (td_focus_effect focus' sets st i') = Some 1.2)
   \<and> as_focus_effect focus parts (as_focus_effect focus parts st) = as_focus_effect focus parts st
   \<and> td_focus_effect focus' sets (td_focus_effect focus' sets st) = td_focus_effect focus' sets st"
  by (rule conjI [OF as_applied [where focus = focus and parts = parts and tgt = tgt and i = i
            and st = st]
        conjI [OF td_applied [where focus = focus' and sets = sets and tgt = tgt' and i = i'
            and st = st]
        conjI [OF as_twice [where focus = focus and parts = parts and st = st]
           td_twice [where focus = focus' and sets = sets and st = st]]]])

text \<open>The impeller of the example assembly and the tanks of the example pad.\<close>

theorem highlight_application_witness:
  "focus_target (Some ''impeller'') (as_registry example_parts) = Some (''impeller'', [4, 5])
   \<and> 4 \<in> set (snd (''impeller'', [4, 5 :: nat]))
   \<and> standard (example_store 4)
   \<and> (\<exists>x. emissiveIntensity (as_focus_effect (Some ''impeller'') example_parts example_store 4) = Some x
          \<and> x \<le> 0.75)
   \<and> emissive (as_focus_effect (Some ''impeller'') example_parts example_store 4)
       = Color_lerp (Color_setHex 0x0d1012) (Color_setHex highlightHex) 0.65
   \<and> focus_target (Some ''tanks'') (td_registry example_sets) = Some (''tanks'', [4, 5])
   \<and> emissive (td_focus_effect (Some ''tanks'') example_sets example_store 4) = Color_setHex 0x1d86d5
   \<and> emissiveIntensity (td_focus_effect (Some ''tanks'') example_sets example_store 4) = Some 1.2"
proof -
  have t1: "focus_target (Some ''impeller'') (as_registry example_parts) = Some (''impeller'', [4, 5])"
    by (simp only: example_as_registry example_targets)
  have t2: "focus_target (Some ''tanks'') (td_registry example_sets) = Some (''tanks'', [4, 5])"
    by (simp only: example_td_registry example_targets)
  have m: "4 \<in> set (snd (''impeller'', [4, 5 :: nat]))" "4 \<in> set (snd (''tanks'', [4, 5 :: nat]))"
    by simp_all
  have s: "standard (example_store 4)"
    by (simp add: example_store_def shell_material_def)
  note th = highlight_application [where focus = "Some ''impeller''" and parts = example_parts
      and tgt = "(''impeller'', [4, 5])" and i = 4 and st = example_store
      and focus' = "Some ''tanks''" and sets = example_sets and tgt' = "(''tanks'', [4, 5])"
      and i' = 4]
  from th [THEN conjunct1, THEN mp, OF conjI [OF t1 conjI [OF m(1) s]], THEN conjunct2]
  obtain x where x: "emissiveIntensity (as_focus_effect (Some ''impeller'') example_parts example_store 4) = Some x"
      "x \<le> 0.75"
    by (elim exE conjE)
  have a: "\<exists>x. emissiveIntensity (as_focus_effect (Some ''impeller'') example_parts example_store 4) = Some x
          \<and> x \<le> 0.75"
    by (rule exI [of _ x]) (intro conjI x)
  have b: "emissive (as_focus_effect (Some ''impeller'') example_parts example_store 4)
       = Color_lerp (Color_setHex 0x0d1012) (Color_setHex highlightHex) 0.65"
    by (simp add: example_as_highlighted)
  note c = th [THEN conjunct2, THEN conjunct1, THEN mp, OF conjI [OF t2 conjI [OF m(2) s]]]
  show ?thesis
    by (intro conjI t1 m(1) s a b t2 c [THEN conjunct1] c [THEN conjunct2])
qed

text \<open>
  Claim C6 as stated fails on the production pad: a tank material whose original emissive
  colour is \<open>0x0d1012\<close> at intensity 0.18 and one whose original is \<open>0x8a4108\<close> both
  end with exactly the hue \<open>0x1d86d5\<close>, which is not the 65 percent blend of the first
  original toward that hue, at intensity 1.2.
\<close>

theorem highlight_is_blend_counterexample:
  "emissive (example_store 4) = Color_setHex 0x0d1012
   \<and> emissiveIntensity (example_store 4) = Some 0.18
   \<and> emissive (td_focus_effect (Some ''tanks'') example_sets example_store 4) = Color_setHex 0x1d86d5
   \<and> emissive (td_focus_effect (Some ''tanks'') example_sets
         (example_store(4 := shell_material\<lparr>emissive := Color_setHex 0x8a4108\<rparr>)) 4)
       = Color_setHex 0x1d86d5
   \<and> Color_lerp (Color_setHex 0x0d1012) (Color_setHex 0x1d86d5) 0.65 \<noteq> Color_setHex 0x1d86d5
   \<and> emissiveIntensity (td_focus_effect (Some ''tanks'') example_sets example_store 4) = Some 1.2"
proof -
  have t2: "focus_target (Some ''tanks'') (td_registry example_sets) = Some (''tanks'', [4, 5])"
    by (simp only: example_td_registry example_targets)
  have m: "4 \<in> set (snd (''tanks'', [4, 5 :: nat]))"
    by simp
  have s: "standard (example_store 4)"
      "standard ((example_store(4 := shell_material\<lparr>emissive := Color_setHex 0x8a4108\<rparr>)) 4)"
    by (simp_all add: example_store_def shell_material_def)
  note a = td_applied [where focus = "Some ''tanks''" and sets = example_sets
      and tgt = "(''tanks'', [4, 5])" and i = 4 and st = example_store,
      THEN mp, OF conjI [OF t2 conjI [OF m s(1)]]]
  note b = td_applied [where focus = "Some ''tanks''" and sets = example_sets
      and tgt = "(''tanks'', [4, 5])" and i = 4
      and st = "example_store(4 := shell_material\<lparr>emissive := Color_setHex 0x8a4108\<rparr>)",
      THEN mp, OF conjI [OF t2 conjI [OF m s(2)]]]
  have o: "emissive (example_store 4) = Color_setHex 0x0d1012"
      "emissiveIntensity (example_store 4) = Some 0.18"
    by (simp_all add: example_store_def shell_material_def)
  have n: "Color_lerp (Color_setHex 0x0d1012) (Color_setHex 0x1d86d5) 0.65 \<noteq> Color_setHex 0x1d86d5"
    by (simp add: Color_setHex_def Color_lerp_def channel_def)
  show ?thesis
    by (intro conjI o a [THEN conjunct1] b [THEN conjunct1] n a [THEN conjunct2])
qed

section \<open>Properties of the explode and assemble toggle\<close>

subsection \<open>One tween, one tick\<close>

lemma power3_inOut_one: "power3_inOut 1 = 1"
  by (simp add: power3_inOut_def)

lemma tween_value_one: "tween_value a b 1 = b"
  by (cases a; cases b) (simp add: tween_value_def)

lemma step_inactive: "\<not> tw_active tw \<Longrightarrow> step_tween dt tw ps = (tw, ps)"
  by (simp add: step_tween_def)

lemma step_frame:
  "tw_part (fst (step_tween dt tw ps)) = tw_part tw
   \<and> tw_to (fst (step_tween dt tw ps)) = tw_to tw
   \<and> tw_delay (fst (step_tween dt tw ps)) = tw_delay tw
   \<and> tw_duration (fst (step_tween dt tw ps)) = tw_duration tw
   \<and> length (snd (step_tween dt tw ps)) = length ps
   \<and> (\<not> tw_active tw \<longrightarrow> \<not> tw_active (fst (step_tween dt tw ps)))"
  by (simp add: step_tween_def Let_def)

lemma step_elsewhere: "j \<noteq> tw_part tw \<Longrightarrow> snd (step_tween dt tw ps) ! j = ps ! j"
  by (simp add: step_tween_def Let_def)

lemma start_of_simps:
  "start_of ps (tw\<lparr>tw_time := t\<rparr>) = start_of ps tw"
  "start_of ps (tw\<lparr>tw_from := Some f, tw_active := b\<rparr>) = f"
  by (simp_all add: start_of_def split: option.splits)

lemma start_of_elsewhere: "ps' ! tw_part tw = ps ! tw_part tw \<Longrightarrow> start_of ps' tw = start_of ps tw"
  by (simp add: start_of_def split: option.splits)

lemma step_waiting:
  "tw_active tw \<Longrightarrow> tw_time tw + dt < tw_delay tw \<Longrightarrow>
     step_tween dt tw ps = (tw\<lparr>tw_time := tw_time tw + dt\<rparr>, ps)"
  by (simp add: step_tween_def Let_def)

lemma step_started:
  "tw_active tw \<Longrightarrow> \<not> tw_time tw + dt < tw_delay tw \<Longrightarrow>
     step_tween dt tw ps =
       (tw\<lparr> tw_time := tw_time tw + dt, tw_from := Some (start_of ps tw),
            tw_active := (min 1 ((tw_time tw + dt - tw_delay tw) / tw_duration tw) < 1) \<rparr>,
        ps[tw_part tw := tween_value (start_of ps tw) (tw_to tw)
             (power3_inOut (min 1 ((tw_time tw + dt - tw_delay tw) / tw_duration tw)))])"
  by (simp add: step_tween_def Let_def start_of_simps)

lemma step_in_order:
  assumes "in_order p0 t ps tw"
  shows "in_order p0 (t + dt) (snd (step_tween dt tw ps)) (fst (step_tween dt tw ps))"
proof (cases "tw_active tw")
  case False
  with assms show ?thesis by (simp add: step_inactive in_order_def)
next
  case True
  from assms True have part: "tw_part tw < length ps" and dur: "0 < tw_duration tw"
    and time: "tw_time tw = t"
    and start: "start_of ps tw = p0 ! tw_part tw"
    by (simp_all add: in_order_def)
  show ?thesis
  proof (cases "tw_time tw + dt < tw_delay tw")
    case waiting: True
    have lt: "t + dt < tw_delay tw + tw_duration tw"
      using waiting dur time by linarith
    show ?thesis
      unfolding step_waiting [OF True waiting] fst_conv snd_conv
      using part dur time start lt True
      by (simp add: in_order_def start_of_simps)
  next
    case started: False
    let ?q = "(tw_time tw + dt - tw_delay tw) / tw_duration tw"
    show ?thesis
    proof (cases "?q < 1")
      case running: True
      then have "tw_time tw + dt - tw_delay tw < tw_duration tw"
        using dur by (simp add: divide_less_eq)
      then have lt: "t + dt < tw_delay tw + tw_duration tw"
        using time by linarith
      have m: "min 1 ?q < 1" using running by simp
      show ?thesis
        unfolding step_started [OF True started] fst_conv snd_conv
        using part dur time start lt m
        by (simp add: in_order_def start_of_simps)
    next
      case finished: False
      then have m: "min 1 ?q = 1" by simp
      show ?thesis
        unfolding step_started [OF True started] fst_conv snd_conv m
        using part dur
        by (simp add: in_order_def power3_inOut_one tween_value_one)
    qed
  qed
qed

lemma in_order_elsewhere:
  "in_order p0 t ps tw \<Longrightarrow> length ps' = length ps \<Longrightarrow> ps' ! tw_part tw = ps ! tw_part tw
     \<Longrightarrow> in_order p0 t ps' tw"
  using start_of_elsewhere [of ps' tw ps] by (simp add: in_order_def)

subsection \<open>All tweens, one tick\<close>

lemma tick_Cons:
  "tick_tweens dt (tw # tws) ps =
     (fst (step_tween dt tw ps) # fst (tick_tweens dt tws (snd (step_tween dt tw ps))),
      snd (tick_tweens dt tws (snd (step_tween dt tw ps))))"
  by (simp add: split_beta Let_def)

lemma tick_inactive: "\<forall>tw \<in> set tws. \<not> tw_active tw \<Longrightarrow> tick_tweens dt tws ps = (tws, ps)"
  by (induction tws) (simp_all add: tick_Cons step_inactive del: tick_tweens.simps(2))

lemma tick_append:
  "tick_tweens dt (a @ b) ps =
     (fst (tick_tweens dt a ps) @ fst (tick_tweens dt b (snd (tick_tweens dt a ps))),
      snd (tick_tweens dt b (snd (tick_tweens dt a ps))))"
proof (induction a arbitrary: ps)
  case Nil
  show ?case by simp
next
  case (Cons tw a)
  show ?case
    by (simp only: append_Cons tick_Cons Cons.IH fst_conv snd_conv)
qed

lemma tick_frame:
  "map tw_part (fst (tick_tweens dt tws ps)) = map tw_part tws
   \<and> map tw_to (fst (tick_tweens dt tws ps)) = map tw_to tws
   \<and> map tw_delay (fst (tick_tweens dt tws ps)) = map tw_delay tws
   \<and> map tw_duration (fst (tick_tweens dt tws ps)) = map tw_duration tws
   \<and> length (fst (tick_tweens dt tws ps)) = length tws
   \<and> length (snd (tick_tweens dt tws ps)) = length ps"
proof (induction tws arbitrary: ps)
  case Nil
  show ?case by simp
next
  case (Cons tw tws)
  from Cons.IH [of "snd (step_tween dt tw ps)"] step_frame [of dt tw ps]
  show ?case by (simp add: tick_Cons del: tick_tweens.simps(2))
qed

lemma tick_elsewhere:
  "j \<notin> tw_part ` set tws \<Longrightarrow> snd (tick_tweens dt tws ps) ! j = ps ! j"
proof (induction tws arbitrary: ps)
  case Nil
  show ?case by simp
next
  case (Cons tw tws)
  from Cons.prems have a: "j \<noteq> tw_part tw" and b: "j \<notin> tw_part ` set tws" by auto
  have "snd (tick_tweens dt (tw # tws) ps) ! j = snd (tick_tweens dt tws (snd (step_tween dt tw ps))) ! j"
    by (simp only: tick_Cons snd_conv)
  also have "\<dots> = snd (step_tween dt tw ps) ! j" by (rule Cons.IH [OF b])
  also have "\<dots> = ps ! j" by (rule step_elsewhere [OF a])
  finally show ?case .
qed

lemma tick_in_order:
  "distinct (map tw_part tws) \<Longrightarrow> \<forall>tw \<in> set tws. in_order p0 t ps tw \<Longrightarrow>
     \<forall>tw \<in> set (fst (tick_tweens dt tws ps)). in_order p0 (t + dt) (snd (tick_tweens dt tws ps)) tw"
proof (induction tws arbitrary: ps)
  case Nil
  show ?case by simp
next
  case (Cons tw tws)
  let ?tw' = "fst (step_tween dt tw ps)"
  let ?ps1 = "snd (step_tween dt tw ps)"
  let ?tws' = "fst (tick_tweens dt tws ?ps1)"
  let ?ps2 = "snd (tick_tweens dt tws ?ps1)"
  from Cons.prems(1) have fresh: "tw_part tw \<notin> tw_part ` set tws" and dist: "distinct (map tw_part tws)"
    by simp_all
  from Cons.prems(2) have head: "in_order p0 t ps tw" and tail: "\<forall>u \<in> set tws. in_order p0 t ps u"
    by simp_all
  have len1: "length ?ps1 = length ps" using step_frame [of dt tw ps] by simp
  have tail1: "\<forall>u \<in> set tws. in_order p0 t ?ps1 u"
  proof
    fix u assume u: "u \<in> set tws"
    then have "tw_part u \<in> tw_part ` set tws" by (rule imageI)
    with fresh have "tw_part u \<noteq> tw_part tw" by metis
    then have "?ps1 ! tw_part u = ps ! tw_part u" by (rule step_elsewhere)
    with tail u len1 show "in_order p0 t ?ps1 u" by (blast intro: in_order_elsewhere)
  qed
  have rest: "\<forall>u \<in> set ?tws'. in_order p0 (t + dt) ?ps2 u"
    by (rule Cons.IH [OF dist tail1])
  have head1: "in_order p0 (t + dt) ?ps1 ?tw'" by (rule step_in_order [OF head])
  have part': "tw_part ?tw' = tw_part tw" using step_frame [of dt tw ps] by simp
  have len2: "length ?ps2 = length ?ps1" using tick_frame [of dt tws ?ps1] by simp
  have "?ps2 ! tw_part ?tw' = ?ps1 ! tw_part ?tw'"
    using fresh by (simp only: part') (rule tick_elsewhere)
  with head1 len2 have head2: "in_order p0 (t + dt) ?ps2 ?tw'"
    by (blast intro: in_order_elsewhere)
  show ?case
    using head2 rest by (simp only: tick_Cons fst_conv snd_conv) simp
qed

subsection \<open>Killing tweens\<close>

lemma kill_length [simp]: "length (kill j tws) = length tws"
  by (simp add: kill_def)

lemma kill_active:
  "i < length tws \<Longrightarrow> tw_active (kill j tws ! i) = (tw_active (tws ! i) \<and> i \<noteq> j)"
  by (auto simp: kill_def nth_list_update)

lemma kill_all_length [simp]: "length (kill_all ids tws) = length tws"
  unfolding kill_all_def by (induction ids arbitrary: tws) simp_all

lemma kill_all_active:
  "i < length tws \<Longrightarrow> tw_active (kill_all ids tws ! i) = (tw_active (tws ! i) \<and> i \<notin> set ids)"
  unfolding kill_all_def
proof (induction ids arbitrary: tws)
  case Nil
  show ?case by simp
next
  case (Cons j ids)
  from Cons.prems have "i < length (kill j tws)" by simp
  from Cons.IH [OF this] Cons.prems show ?case
    by (auto simp: kill_active)
qed

subsection \<open>The tweens a toggle creates\<close>

lemma created_length:
  "length (map (\<lambda>(i, p). new_tween e i p) (enumerate 0 parts)) = length parts"
  by simp

lemma created_nth:
  "i < length parts \<Longrightarrow>
     map (\<lambda>(i, p). new_tween e i p) (enumerate 0 parts) ! i = new_tween e i (parts ! i)"
  by (simp add: nth_enumerate_eq)

lemma created_parts:
  "map tw_part (map (\<lambda>(i, p). new_tween e i p) (enumerate 0 parts)) = [0..<length parts]"
proof (rule nth_equalityI)
  show "length (map tw_part (map (\<lambda>(i, p). new_tween e i p) (enumerate 0 parts)))
      = length [0..<length parts]"
    by simp
next
  fix i
  assume "i < length (map tw_part (map (\<lambda>(i, p). new_tween e i p) (enumerate 0 parts)))"
  then have i: "i < length parts" by simp
  then have "map tw_part (map (\<lambda>(i, p). new_tween e i p) (enumerate 0 parts)) ! i
      = tw_part (new_tween e i (parts ! i))"
    by (simp only: nth_map created_length created_nth)
  also have "\<dots> = [0..<length parts] ! i"
    using i by (simp add: new_tween_def)
  finally show "map tw_part (map (\<lambda>(i, p). new_tween e i p) (enumerate 0 parts)) ! i
      = [0..<length parts] ! i" .
qed

lemma created_in_order:
  assumes "length ps = length parts"
  shows "\<forall>tw \<in> set (map (\<lambda>(i, p). new_tween e i p) (enumerate 0 parts)). in_order ps 0 ps tw"
proof
  fix tw
  assume "tw \<in> set (map (\<lambda>(i, p). new_tween e i p) (enumerate 0 parts))"
  then obtain i where "i < length (map (\<lambda>(i, p). new_tween e i p) (enumerate 0 parts))"
    and "tw = map (\<lambda>(i, p). new_tween e i p) (enumerate 0 parts) ! i"
    by (metis in_set_conv_nth)
  then have i: "i < length parts" and tw: "tw = new_tween e i (parts ! i)"
    by (simp_all only: created_length created_nth)
  have "0 \<le> real i * 0.08" by simp
  then have "0 < real i * 0.08 + (1.4 :: real)" by linarith
  with i assms show "in_order ps 0 ps tw"
    unfolding tw by (simp add: in_order_def new_tween_def start_of_def)
qed

subsection \<open>The state after a toggle\<close>

lemma toggledI:
  assumes "tweens s = old @ fam" and "length fam = length parts"
    and "length (positions s) = length parts"
    and "\<forall>tw \<in> set old. \<not> tw_active tw"
    and "assemblingRef s = Some [length old ..< length old + length parts]"
    and "map tw_part fam = [0 ..< length parts]"
    and "map tw_to fam = map (mode_target mode) parts"
    and "map tw_delay fam = map (\<lambda>i. real i * 0.08) [0 ..< length parts]"
    and "map tw_duration fam = replicate (length parts) 1.4"
    and "\<forall>tw \<in> set fam. in_order p0 t (positions s) tw"
  shows "toggled parts mode p0 t s"
proof -
  have k: "length (tweens s) - length parts = length old"
    using assms(1,2) by simp
  have tk: "take (length old) (tweens s) = old" and dr: "drop (length old) (tweens s) = fam"
    using assms(1) by simp_all
  have le: "length parts \<le> length (tweens s)" using assms(1,2) by simp
  show ?thesis
    unfolding toggled_def Let_def k tk dr
    using le assms(3-10) by (intro conjI)
qed

lemma toggledE:
  assumes "toggled parts mode p0 t s"
  obtains old fam where "tweens s = old @ fam" and "length fam = length parts"
    and "length (positions s) = length parts"
    and "\<forall>tw \<in> set old. \<not> tw_active tw"
    and "assemblingRef s = Some [length old ..< length old + length parts]"
    and "map tw_part fam = [0 ..< length parts]"
    and "map tw_to fam = map (mode_target mode) parts"
    and "map tw_delay fam = map (\<lambda>i. real i * 0.08) [0 ..< length parts]"
    and "map tw_duration fam = replicate (length parts) 1.4"
    and "\<forall>tw \<in> set fam. in_order p0 t (positions s) tw"
proof -
  let ?k = "length (tweens s) - length parts"
  let ?old = "take ?k (tweens s)" and ?fam = "drop ?k (tweens s)"
  from assms have le: "length parts \<le> length (tweens s)"
    by (simp add: toggled_def Let_def)
  have a: "tweens s = ?old @ ?fam" by simp
  have b: "length ?fam = length parts" using le by simp
  have c: "length ?old = ?k" using le by simp
  from assms have rest:
    "length (positions s) = length parts"
    "\<forall>tw \<in> set ?old. \<not> tw_active tw"
    "assemblingRef s = Some [?k ..< ?k + length parts]"
    "map tw_part ?fam = [0 ..< length parts]"
    "map tw_to ?fam = map (mode_target mode) parts"
    "map tw_delay ?fam = map (\<lambda>i. real i * 0.08) [0 ..< length parts]"
    "map tw_duration ?fam = replicate (length parts) 1.4"
    "\<forall>tw \<in> set ?fam. in_order p0 t (positions s) tw"
    unfolding toggled_def Let_def by blast+
  show thesis
    by (rule that [of ?old ?fam]) (use a b rest in \<open>simp_all only: c\<close>)
qed

lemma kill_running_length [simp]: "length (kill_running s) = length (tweens s)"
  by (simp add: kill_running_def split: option.splits)

lemma kill_running_inactive:
  assumes "covered s"
  shows "\<forall>tw \<in> set (kill_running s). \<not> tw_active tw"
proof
  fix tw assume "tw \<in> set (kill_running s)"
  then obtain i where i: "i < length (tweens s)" and tw: "tw = kill_running s ! i"
    by (auto simp: in_set_conv_nth)
  show "\<not> tw_active tw"
  proof (cases "assemblingRef s")
    case None
    with assms i have "\<not> tw_active (tweens s ! i)" by (auto simp: covered_def)
    with None tw show ?thesis by (simp add: kill_running_def)
  next
    case (Some ids)
    with assms i have "tw_active (tweens s ! i) \<longrightarrow> i \<in> set ids" by (auto simp: covered_def)
    with Some tw i show ?thesis by (auto simp: kill_running_def kill_all_active)
  qed
qed

lemma created_to:
  "map tw_to (map (\<lambda>(i, p). new_tween e i p) (enumerate 0 parts)) = map (mode_target (\<not> e)) parts"
  by (rule nth_equalityI) (simp_all add: nth_enumerate_eq new_tween_def mode_target_def)

lemma created_delay:
  "map tw_delay (map (\<lambda>(i, p). new_tween e i p) (enumerate 0 parts))
     = map (\<lambda>i. real i * 0.08) [0 ..< length parts]"
  by (rule nth_equalityI) (simp_all add: nth_enumerate_eq new_tween_def)

lemma created_duration:
  "map tw_duration (map (\<lambda>(i, p). new_tween e i p) (enumerate 0 parts))
     = replicate (length parts) 1.4"
  by (rule nth_equalityI) (simp_all add: nth_enumerate_eq new_tween_def)

lemma click_fields:
  assumes "parts \<noteq> []"
  shows "tweens (click parts s)
           = kill_running s @ map (\<lambda>(i, p). new_tween (isExploded s) i p) (enumerate 0 parts)"
    and "assemblingRef (click parts s)
           = Some [length (tweens s) ..< length (tweens s) + length parts]"
    and "isExploded (click parts s) = (\<not> isExploded s)"
    and "positions (click parts s) = positions s"
  using assms by (simp_all add: click_def toggleAssembly_def Let_def)

lemma click_toggled:
  assumes "parts \<noteq> []" and "length (positions s) = length parts" and "covered s"
  shows "toggled parts (\<not> isExploded s) (positions s) 0 (click parts s)"
proof (rule toggledI [where old = "kill_running s"
      and fam = "map (\<lambda>(i, p). new_tween (isExploded s) i p) (enumerate 0 parts)"])
  show "tweens (click parts s)
          = kill_running s @ map (\<lambda>(i, p). new_tween (isExploded s) i p) (enumerate 0 parts)"
    by (rule click_fields(1) [OF assms(1)])
  show "length (map (\<lambda>(i, p). new_tween (isExploded s) i p) (enumerate 0 parts)) = length parts"
    by simp
  show "length (positions (click parts s)) = length parts"
    by (simp only: click_fields(4) [OF assms(1)] assms(2))
  show "\<forall>tw \<in> set (kill_running s). \<not> tw_active tw"
    by (rule kill_running_inactive [OF assms(3)])
  show "assemblingRef (click parts s)
          = Some [length (kill_running s) ..< length (kill_running s) + length parts]"
    by (simp only: click_fields(2) [OF assms(1)] kill_running_length)
  show "map tw_part (map (\<lambda>(i, p). new_tween (isExploded s) i p) (enumerate 0 parts))
          = [0 ..< length parts]"
    by (rule created_parts)
  show "map tw_to (map (\<lambda>(i, p). new_tween (isExploded s) i p) (enumerate 0 parts))
          = map (mode_target (\<not> isExploded s)) parts"
    by (rule created_to)
  show "map tw_delay (map (\<lambda>(i, p). new_tween (isExploded s) i p) (enumerate 0 parts))
          = map (\<lambda>i. real i * 0.08) [0 ..< length parts]"
    by (rule created_delay)
  show "map tw_duration (map (\<lambda>(i, p). new_tween (isExploded s) i p) (enumerate 0 parts))
          = replicate (length parts) 1.4"
    by (rule created_duration)
  show "\<forall>tw \<in> set (map (\<lambda>(i, p). new_tween (isExploded s) i p) (enumerate 0 parts)).
          in_order (positions s) 0 (positions (click parts s)) tw"
    unfolding click_fields(4) [OF assms(1)] by (rule created_in_order [OF assms(2)])
qed

lemma toggled_covered:
  assumes "toggled parts mode p0 t s"
  shows "covered s"
proof -
  from assms obtain old fam where sp: "tweens s = old @ fam" and len: "length fam = length parts"
    and old: "\<forall>tw \<in> set old. \<not> tw_active tw"
    and ref: "assemblingRef s = Some [length old ..< length old + length parts]"
    by (rule toggledE)
  show ?thesis
    unfolding covered_def
  proof (intro allI impI)
    fix i assume i: "i < length (tweens s)" and act: "tw_active (tweens s ! i)"
    have "\<not> i < length old"
    proof
      assume "i < length old"
      then have "tweens s ! i \<in> set old" using sp by (simp add: nth_append)
      with old act show False by blast
    qed
    with i sp len have "i \<in> set [length old ..< length old + length parts]" by simp
    then show "case assemblingRef s of None \<Rightarrow> False | Some ids \<Rightarrow> i \<in> set ids"
      by (simp only: ref option.case)
  qed
qed

lemma settled_covered: "\<forall>tw \<in> set (tweens s). \<not> tw_active tw \<Longrightarrow> covered s"
  by (simp add: covered_def)

lemma gsap_tick_fields:
  "tweens (gsap_tick dt s) = fst (tick_tweens dt (tweens s) (positions s))"
  "positions (gsap_tick dt s) = snd (tick_tweens dt (tweens s) (positions s))"
  "assemblingRef (gsap_tick dt s) = assemblingRef s"
  "isExploded (gsap_tick dt s) = isExploded s"
  by (simp_all add: gsap_tick_def split_beta)

lemma tick_toggled:
  assumes "toggled parts mode p0 t s"
  shows "toggled parts mode p0 (t + dt) (gsap_tick dt s)"
proof -
  from assms obtain old fam where sp: "tweens s = old @ fam" and len: "length fam = length parts"
    and pl: "length (positions s) = length parts"
    and old: "\<forall>tw \<in> set old. \<not> tw_active tw"
    and ref: "assemblingRef s = Some [length old ..< length old + length parts]"
    and f1: "map tw_part fam = [0 ..< length parts]"
    and f2: "map tw_to fam = map (mode_target mode) parts"
    and f3: "map tw_delay fam = map (\<lambda>i. real i * 0.08) [0 ..< length parts]"
    and f4: "map tw_duration fam = replicate (length parts) 1.4"
    and ord: "\<forall>tw \<in> set fam. in_order p0 t (positions s) tw"
    by (rule toggledE)
  let ?r = "tick_tweens dt fam (positions s)"
  have whole: "tick_tweens dt (tweens s) (positions s) = (old @ fst ?r, snd ?r)"
    by (simp only: sp tick_append tick_inactive [OF old] fst_conv snd_conv)
  have dist: "distinct (map tw_part fam)" by (simp only: f1 distinct_upt)
  note fr = tick_frame [of dt fam "positions s"]
  show ?thesis
  proof (rule toggledI [where old = old and fam = "fst ?r"])
    show "tweens (gsap_tick dt s) = old @ fst ?r"
      by (simp only: gsap_tick_fields whole fst_conv)
    show "length (fst ?r) = length parts" using fr len by simp
    show "length (positions (gsap_tick dt s)) = length parts"
      using fr pl by (simp only: gsap_tick_fields whole snd_conv)
    show "\<forall>tw \<in> set old. \<not> tw_active tw" by (rule old)
    show "assemblingRef (gsap_tick dt s) = Some [length old ..< length old + length parts]"
      by (simp only: gsap_tick_fields ref)
    show "map tw_part (fst ?r) = [0 ..< length parts]" using fr f1 by simp
    show "map tw_to (fst ?r) = map (mode_target mode) parts" using fr f2 by simp
    show "map tw_delay (fst ?r) = map (\<lambda>i. real i * 0.08) [0 ..< length parts]"
      using fr f3 by simp
    show "map tw_duration (fst ?r) = replicate (length parts) 1.4" using fr f4 by simp
    show "\<forall>tw \<in> set (fst ?r). in_order p0 (t + dt) (positions (gsap_tick dt s)) tw"
      unfolding gsap_tick_fields whole snd_conv by (rule tick_in_order [OF dist ord])
  qed
qed

lemma ticks_toggled:
  "toggled parts mode p0 t s \<Longrightarrow> toggled parts mode p0 (t + sum_list dts) (gsap_ticks dts s)"
proof (induction dts arbitrary: t s)
  case Nil
  then show ?case by (simp add: gsap_ticks_def)
next
  case (Cons dt dts)
  have "toggled parts mode p0 (t + dt + sum_list dts) (gsap_ticks dts (gsap_tick dt s))"
    by (rule Cons.IH [OF tick_toggled [OF Cons.prems]])
  then show ?case by (simp add: gsap_ticks_def add.assoc)
qed

lemma ticks_isExploded: "isExploded (gsap_ticks dts s) = isExploded s"
  unfolding gsap_ticks_def by (induction dts arbitrary: s) (simp_all add: gsap_tick_fields)

lemma ticks_tweens_length: "length (tweens (gsap_ticks dts s)) = length (tweens s)"
  unfolding gsap_ticks_def
  by (induction dts arbitrary: s) (simp_all add: gsap_tick_fields tick_frame)

lemma settled_tick:
  assumes "\<forall>tw \<in> set (tweens s). \<not> tw_active tw"
  shows "gsap_tick dt s = s"
  by (simp add: gsap_tick_def tick_inactive [OF assms])

lemma settled_ticks:
  assumes "\<forall>tw \<in> set (tweens s). \<not> tw_active tw"
  shows "gsap_ticks dts s = s"
  unfolding gsap_ticks_def by (induction dts) (simp_all add: settled_tick [OF assms])

lemma toggled_done:
  assumes tg: "toggled parts mode p0 t s"
    and late: "1.4 + 0.08 * real (length parts - 1) \<le> t"
  shows "(\<forall>tw \<in> set (tweens s). \<not> tw_active tw) \<and> positions s = map (mode_target mode) parts"
proof -
  from tg obtain old fam where sp: "tweens s = old @ fam" and len: "length fam = length parts"
    and pl: "length (positions s) = length parts"
    and old: "\<forall>tw \<in> set old. \<not> tw_active tw"
    and f1: "map tw_part fam = [0 ..< length parts]"
    and f2: "map tw_to fam = map (mode_target mode) parts"
    and f3: "map tw_delay fam = map (\<lambda>i. real i * 0.08) [0 ..< length parts]"
    and f4: "map tw_duration fam = replicate (length parts) 1.4"
    and ord: "\<forall>tw \<in> set fam. in_order p0 t (positions s) tw"
    by (rule toggledE)
  have each: "\<not> tw_active (fam ! i) \<and> positions s ! i = mode_target mode (parts ! i)"
    if i: "i < length parts" for i
  proof -
    have il: "i < length fam" using i len by simp
    have part: "tw_part (fam ! i) = i"
      using arg_cong [OF f1, of "\<lambda>xs. xs ! i"] i il by simp
    have to: "tw_to (fam ! i) = mode_target mode (parts ! i)"
      using arg_cong [OF f2, of "\<lambda>xs. xs ! i"] i il by simp
    have delay: "tw_delay (fam ! i) = real i * 0.08"
      using arg_cong [OF f3, of "\<lambda>xs. xs ! i"] i il by simp
    have dur: "tw_duration (fam ! i) = 1.4"
      using arg_cong [OF f4, of "\<lambda>xs. xs ! i"] i il by simp
    have io: "in_order p0 t (positions s) (fam ! i)" using ord il by simp
    have "real i \<le> real (length parts - 1)" using i by simp
    then have bound: "real i * 0.08 + 1.4 \<le> t" using late by simp
    have inactive: "\<not> tw_active (fam ! i)"
    proof
      assume "tw_active (fam ! i)"
      with io have "t < tw_delay (fam ! i) + tw_duration (fam ! i)" by (simp add: in_order_def)
      with bound show False by (simp only: delay dur)
    qed
    with io have "positions s ! tw_part (fam ! i) = tw_to (fam ! i)" by (simp add: in_order_def)
    with inactive show ?thesis by (simp only: part to simp_thms)
  qed
  have "\<forall>tw \<in> set fam. \<not> tw_active tw"
  proof
    fix tw assume "tw \<in> set fam"
    then obtain i where "i < length fam" "tw = fam ! i" by (auto simp: in_set_conv_nth)
    with each [of i] len show "\<not> tw_active tw" by simp
  qed
  with old sp have a: "\<forall>tw \<in> set (tweens s). \<not> tw_active tw" by auto
  have b: "positions s = map (mode_target mode) parts"
    by (rule nth_equalityI) (simp_all add: pl each)
  from a b show ?thesis by (rule conjI)
qed

lemma click_new:
  assumes "parts \<noteq> []" and "i < length parts"
  shows "tweens (click parts s) ! (length (tweens s) + i) = new_tween (isExploded s) i (parts ! i)"
  using assms(2)
  by (simp only: click_fields(1) [OF assms(1)] nth_append_length_plus
        kill_running_length [symmetric] created_nth)

lemma click_old:
  assumes "parts \<noteq> []" and "covered s" and "i < length (tweens s)"
  shows "\<not> tw_active (tweens (click parts s) ! i)"
proof -
  have "tweens (click parts s) ! i = kill_running s ! i"
    using assms(3) by (simp add: click_fields(1) [OF assms(1)] nth_append)
  moreover have "kill_running s ! i \<in> set (kill_running s)" using assms(3) by simp
  ultimately show ?thesis using kill_running_inactive [OF assms(2)] by simp
qed

lemma new_tween_fields:
  "tw_part (new_tween e i p) = i"
  "tw_to (new_tween e i p) = mode_target (\<not> e) p"
  "tw_active (new_tween e i p)"
  "start_of ps (new_tween e i p) = ps ! i"
  by (simp_all add: new_tween_def mode_target_def start_of_def)

lemma toggled_positions_length: "toggled parts mode p0 t s \<Longrightarrow> length (positions s) = length parts"
  by (simp add: toggled_def Let_def)

text \<open>
  Claim C3. Let the button be clicked, the library tick through the frames \<open>dts_first\<close>
  (however far the first cascade has got), and the button be clicked again. The second
  click leaves no tween that existed before it alive, so the tweens of the first toggle
  are cancelled; it moves no part; and for each part it creates a live tween toward the
  target of the mode from before the first click, whose start values are the position the
  part had at the second click. Once the frames after the second click add up to the
  duration plus the last part's delay, every part is at that target, the mode is the one
  from before the first click, no tween is alive, and further ticks of the library change
  nothing. The button is given the handler of the latest render, and a tween alive at the
  first click is one that \<open>assemblingRef\<close> names.
\<close>

theorem toggle_twice:
  fixes parts :: "part list" and s :: assembly and dts_first dts_second dts_after :: "real list"
  defines "s1 \<equiv> gsap_ticks dts_first (click parts s)"
  defines "s2 \<equiv> click parts s1"
  defines "s3 \<equiv> gsap_ticks dts_second s2"
  assumes parts: "parts \<noteq> []"
    and len0: "length (positions s) = length parts"
    and cov0: "covered s"
    and late: "1.4 + 0.08 * real (length parts - 1) \<le> sum_list dts_second"
  shows "(\<forall>i < length (tweens s1). \<not> tw_active (tweens s2 ! i))
    \<and> positions s2 = positions s1
    \<and> (\<forall>i < length parts.
          tw_active (tweens s2 ! (length (tweens s1) + i))
          \<and> tw_part (tweens s2 ! (length (tweens s1) + i)) = i
          \<and> tw_to (tweens s2 ! (length (tweens s1) + i)) = mode_target (isExploded s) (parts ! i)
          \<and> start_of (positions s2) (tweens s2 ! (length (tweens s1) + i)) = positions s1 ! i)
    \<and> positions s3 = map (mode_target (isExploded s)) parts
    \<and> isExploded s3 = isExploded s
    \<and> (\<forall>tw \<in> set (tweens s3). \<not> tw_active tw)
    \<and> gsap_ticks dts_after s3 = s3"
proof -
  have "toggled parts (\<not> isExploded s) (positions s) 0 (click parts s)"
    by (rule click_toggled [OF parts len0 cov0])
  then have t1: "toggled parts (\<not> isExploded s) (positions s) (0 + sum_list dts_first) s1"
    unfolding s1_def by (rule ticks_toggled)
  have cov1: "covered s1" by (rule toggled_covered [OF t1])
  have len1: "length (positions s1) = length parts" by (rule toggled_positions_length [OF t1])
  have e1: "isExploded s1 = (\<not> isExploded s)"
    by (simp only: s1_def ticks_isExploded click_fields(3) [OF parts])
  have e2: "isExploded s2 = isExploded s"
    by (simp only: s2_def click_fields(3) [OF parts] e1 not_not)
  have p2: "positions s2 = positions s1"
    by (simp only: s2_def click_fields(4) [OF parts])
  have "toggled parts (\<not> isExploded s1) (positions s1) 0 s2"
    unfolding s2_def by (rule click_toggled [OF parts len1 cov1])
  then have "toggled parts (isExploded s) (positions s1) 0 s2"
    by (simp only: e1 not_not)
  then have "toggled parts (isExploded s) (positions s1) (0 + sum_list dts_second) s3"
    unfolding s3_def by (rule ticks_toggled)
  moreover have "1.4 + 0.08 * real (length parts - 1) \<le> 0 + sum_list dts_second"
    using late by simp
  ultimately have fin: "(\<forall>tw \<in> set (tweens s3). \<not> tw_active tw)
      \<and> positions s3 = map (mode_target (isExploded s)) parts"
    by (rule toggled_done)
  have a: "\<forall>i < length (tweens s1). \<not> tw_active (tweens s2 ! i)"
    unfolding s2_def by (intro allI impI) (rule click_old [OF parts cov1])
  have c: "\<forall>i < length parts.
          tw_active (tweens s2 ! (length (tweens s1) + i))
          \<and> tw_part (tweens s2 ! (length (tweens s1) + i)) = i
          \<and> tw_to (tweens s2 ! (length (tweens s1) + i)) = mode_target (isExploded s) (parts ! i)
          \<and> start_of (positions s2) (tweens s2 ! (length (tweens s1) + i)) = positions s1 ! i"
  proof (intro allI impI)
    fix i assume i: "i < length parts"
    have at: "tweens s2 ! (length (tweens s1) + i) = new_tween (isExploded s1) i (parts ! i)"
      unfolding s2_def by (rule click_new [OF parts i])
    show "tw_active (tweens s2 ! (length (tweens s1) + i))
          \<and> tw_part (tweens s2 ! (length (tweens s1) + i)) = i
          \<and> tw_to (tweens s2 ! (length (tweens s1) + i)) = mode_target (isExploded s) (parts ! i)
          \<and> start_of (positions s2) (tweens s2 ! (length (tweens s1) + i)) = positions s1 ! i"
      by (simp only: at new_tween_fields e1 not_not p2 simp_thms)
  qed
  have e3: "isExploded s3 = isExploded s"
    by (simp only: s3_def ticks_isExploded e2)
  have g: "gsap_ticks dts_after s3 = s3"
    by (rule settled_ticks [OF conjunct1 [OF fin]])
  show ?thesis
    by (intro conjI a p2 c conjunct2 [OF fin] e3 conjunct1 [OF fin] g)
qed

text \<open>
  The two parts of the examples, mounted assembled: a click, half a second, a second
  click, two seconds. At the second click the motor and the impeller are under way.
\<close>

lemma example_midflight:
  "positions (gsap_ticks [1 / 2] (click example_parts (initial_assembly example_parts)))
     = [(- 2.4 - 8.6 * (625 / 4802), 3.5, 0), (8.3 + 8.7 * ((21 / 35) ^ 4 / 2), 3.5, 0)]"
  by (simp add: gsap_ticks_def gsap_tick_def click_def toggleAssembly_def kill_running_def
      initial_assembly_def example_parts_def INITIAL_EXPLODED_def new_tween_def step_tween_def
      Let_def start_of_def tween_value_def power3_inOut_def enumerate_eq_zip upt_rec numeral_eq_Suc
      field_simps)

theorem toggle_twice_witness:
  "positions (gsap_ticks [1 / 2] (click example_parts (initial_assembly example_parts)))
     = [(- 2.4 - 8.6 * (625 / 4802), 3.5, 0), (8.3 + 8.7 * ((21 / 35) ^ 4 / 2), 3.5, 0)]
   \<and> positions (gsap_ticks [1, 1] (click example_parts
        (gsap_ticks [1 / 2] (click example_parts (initial_assembly example_parts)))))
     = [(- 2.4, 3.5, 0), (8.3, 3.5, 0)]
   \<and> \<not> isExploded (gsap_ticks [1, 1] (click example_parts
        (gsap_ticks [1 / 2] (click example_parts (initial_assembly example_parts)))))"
proof -
  have h1: "example_parts \<noteq> []" by (simp add: example_parts_def)
  have h2: "length (positions (initial_assembly example_parts)) = length example_parts"
    by (simp add: initial_assembly_def)
  have h3: "covered (initial_assembly example_parts)"
    by (simp add: covered_def initial_assembly_def)
  have h4: "1.4 + 0.08 * real (length example_parts - 1) \<le> sum_list [1, 1]"
    by (simp add: example_parts_def)
  have t: "map (mode_target False) example_parts = [(- 2.4, 3.5, 0), (8.3, 3.5, 0)]"
    "isExploded (initial_assembly example_parts) = False"
    by (simp_all add: initial_assembly_def INITIAL_EXPLODED_def mode_target_def example_parts_def)
  note tt = toggle_twice [where parts = example_parts and s = "initial_assembly example_parts"
      and dts_first = "[1 / 2]" and dts_second = "[1, 1]" and dts_after = "[]", OF h1 h2 h3 h4]
  note rest = tt [THEN conjunct2, THEN conjunct2, THEN conjunct2]
  have a: "positions (gsap_ticks [1, 1] (click example_parts
        (gsap_ticks [1 / 2] (click example_parts (initial_assembly example_parts)))))
     = [(- 2.4, 3.5, 0), (8.3, 3.5, 0)]"
    using rest [THEN conjunct1] by (simp only: t)
  have b: "\<not> isExploded (gsap_ticks [1, 1] (click example_parts
        (gsap_ticks [1 / 2] (click example_parts (initial_assembly example_parts)))))"
    using rest [THEN conjunct2, THEN conjunct1] by (simp only: t simp_thms)
  show ?thesis by (intro conjI example_midflight a b)
qed

section \<open>Properties of the mount effects\<close>

text \<open>
  Claim C1, evaluated on the code. Mounting the pump assembly with a container and a
  callback invokes the callback once, during the effect, with an api whose \<open>capture\<close>
  yields a PNG data URI of the framebuffer of the mounted canvas. Mounting the production
  pad never invokes the callback, with or without a container: the effect returns its
  cleanup before the call.
\<close>

theorem onReady_calls:
  "ready_calls (fst (run_effect True True (AssemblyExplodedScene_mount c))) = [Capture c]
   \<and> snd (run_effect True True (AssemblyExplodedScene_mount c)) = True
   \<and> ready_calls (fst (run_effect True False (AssemblyExplodedScene_mount c))) = []
   \<and> capture (Capture c) framebuffers = DataURI ''image/png'' (framebuffers c)
   \<and> ready_calls (fst (run_effect el onReady (ThreeDashboard_mount c))) = []
   \<and> snd (run_effect True True (ThreeDashboard_mount c)) = True"
  by (simp add: AssemblyExplodedScene_mount_def ThreeDashboard_mount_def capture_def)

end
